theory Spec2Isabelle
  imports Complex_Main "HOL-Library.AList"
begin

section \<open>Stop detection of scikit-mobility: \<open>skmob/preprocessing/detection.py\<close>\<close>

text \<open>
  The development embeds \<open>_stops_array\<close>, \<open>_stops_trajectory\<close> and \<open>stops\<close>.
  Python floats are idealised as reals (no rounding, no NaN); timestamps are reals counting
  seconds. Every exception the source can raise is a value \<open>Inl e\<close> of the result.
\<close>

subsection \<open>Python primitives used by the detector\<close>

datatype error = IndexError | ZeroDivisionError | KeyError | TypeError

text \<open>\<open>xs[i]\<close> for a non-negative index.\<close>

definition py_index :: "'a list \<Rightarrow> nat \<Rightarrow> error + 'a" where
  "py_index xs i = (if i < length xs then Inr (xs ! i) else Inl IndexError)"

text \<open>\<open>xs[-j]\<close>: for \<open>j = 0\<close> this is \<open>xs[0]\<close>, otherwise the \<open>j\<close>-th element from the end.\<close>

definition py_index_neg :: "'a list \<Rightarrow> nat \<Rightarrow> error + 'a" where
  "py_index_neg xs j =
     (if j = 0 then py_index xs 0
      else if j \<le> length xs then Inr (xs ! (length xs - j))
      else Inl IndexError)"

text \<open>\<open>xs[:-j]\<close>: slicing never raises; \<open>xs[:-0]\<close> is \<open>xs[:0]\<close>, the empty list, and a
  \<open>j\<close> beyond the length is clipped.\<close>

definition py_slice_to_neg :: "'a list \<Rightarrow> nat \<Rightarrow> 'a list" where
  "py_slice_to_neg xs j = (if j = 0 then [] else take (length xs - j) xs)"

text \<open>Float division \<open>a / b\<close> raises \<open>ZeroDivisionError\<close> when \<open>b\<close> is zero.\<close>

definition py_div :: "real \<Rightarrow> real \<Rightarrow> error + real" where
  "py_div a b = (if b = 0 then Inl ZeroDivisionError else Inr (a / b))"

text \<open>\<open>np.median\<close> of a one-dimensional list: the middle element of the sorted list, or the
  mean of the two middle elements. The detector calls it on non-empty lists only (the guard
  \<open>len(sum_lat) > 0\<close>); on the empty list numpy returns NaN, which has no real counterpart, so
  the value there is left as HOL gives it.\<close>

definition median :: "real list \<Rightarrow> real" where
  "median xs =
     (let s = sort xs; n = length s
      in if n mod 2 = 1 then s ! (n div 2)
         else (s ! (n div 2 - 1) + s ! (n div 2)) / 2)"

text \<open>Modelled from the spec: \<open>utils.diff_seconds\<close> is not among the sources; it is the
  elapsed time in seconds from the first timestamp to the second.\<close>

definition diff_seconds :: "real \<Rightarrow> real \<Rightarrow> real" where
  "diff_seconds t0 t1 = t1 - t0"

subsection \<open>Data\<close>

text \<open>A row of the matrix \<open>lat_lng_dtime_other\<close>: latitude, longitude, timestamp and the
  remaining columns, so that the unpacking of \<open>row[:3]\<close> cannot fail. An emitted stop is a
  row of the same layout.\<close>

record 'a row =
  lat :: real
  lng :: real
  dtime :: real
  other :: "'a list"

text \<open>The arguments of \<open>_stops_array\<close> after the matrix.\<close>

record stop_args =
  stop_radius :: real
  minutes_for_a_stop :: real
  leaving_time :: bool
  no_data_for_minutes :: real
  min_speed_kmh :: "real option"

text \<open>The local variables of \<open>_stops_array\<close> that live across loop iterations;
  \<open>stops_l\<close> is the local list \<open>stops\<close>, renamed because \<open>stops\<close> is the module's entry
  point.\<close>

record 'a vars =
  stops_l :: "'a row list"
  leaving_times :: "real list"
  lat_0 :: real
  lon_0 :: real
  t_0 :: real
  sum_lat :: "real list"
  sum_lon :: "real list"
  sum_t :: "real list"
  speeds_kmh :: "real list"
  count :: nat

subsection \<open>The loop of \<open>_stops_array\<close>\<close>

text \<open>The four assignments that re-anchor the accumulator at the point \<open>p\<close>; the source
  repeats them in the gap branch, after a confirmed stop and after a rejected one.\<close>

definition reanchor :: "'a row \<Rightarrow> 'a vars \<Rightarrow> 'a vars" where
  "reanchor p s =
     s\<lparr>count := 0, lat_0 := lat p, lon_0 := lng p, t_0 := dtime p,
       sum_lat := [], sum_lon := [], sum_t := [], speeds_kmh := []\<rparr>"

text \<open>The inner loop \<open>for j in range(1, len(speeds_kmh)): if speeds_kmh[-j] < min_speed_kmh: break\<close>.
  The first argument is the part of the range still to visit, the last the current value of
  \<open>j\<close>, which survives the loop: the offset of the break, or the last offset visited, or the
  initial \<open>1\<close> when the range is empty.\<close>

fun scan_back :: "nat list \<Rightarrow> real list \<Rightarrow> real \<Rightarrow> nat \<Rightarrow> error + nat" where
  "scan_back [] speeds m j = Inr j"
| "scan_back (k # ks) speeds m j =
     (case py_index_neg speeds k of
        Inl e \<Rightarrow> Inl e
      | Inr v \<Rightarrow> if v < m then Inr k else scan_back ks speeds m k)"

text \<open>Lines 147 to 159: the estimated leaving time and the (possibly trimmed) latitude and
  longitude lists, for the exit point's timestamp \<open>t\<close>.\<close>

definition estimate_leaving ::
  "real option \<Rightarrow> real \<Rightarrow> 'a vars \<Rightarrow> error + (real \<times> 'a vars)" where
  "estimate_leaving ms t s =
     (case ms of
        None \<Rightarrow> Inr (t, s)
      | Some m \<Rightarrow>
          (case scan_back [1..<length (speeds_kmh s)] (speeds_kmh s) m 1 of
             Inl e \<Rightarrow> Inl e
           | Inr j \<Rightarrow>
               if j = 1 then Inr (t, s)
               else (case py_index_neg (sum_t s) j of
                       Inl e \<Rightarrow> Inl e
                     | Inr tj \<Rightarrow>
                         Inr (tj, s\<lparr>sum_lat := py_slice_to_neg (sum_lat s) j,
                                    sum_lon := py_slice_to_neg (sum_lon s) j\<rparr>))))"

text \<open>Lines 161 to 165: the stop is appended only when the latitude list is not empty.\<close>

definition emit :: "bool \<Rightarrow> 'a list \<Rightarrow> real \<Rightarrow> 'a vars \<Rightarrow> 'a vars" where
  "emit lt extra_cols estimated_final_t s =
     (if length (sum_lat s) > 0 then
        (let s' = (if lt then s\<lparr>leaving_times := leaving_times s @ [estimated_final_t]\<rparr> else s)
         in s'\<lparr>stops_l := stops_l s' @
                 [\<lparr>lat = median (sum_lat s'), lng = median (sum_lon s'), dtime = t_0 s',
                   other = extra_cols\<rparr>]\<rparr>)
      else s)"

text \<open>Lines 142 to 176, the branch \<open>Dr > stop_radius\<close>; \<open>q\<close> is row \<open>i\<close>, \<open>p\<close> is row
  \<open>i + 1\<close>.\<close>

definition exit_branch ::
  "stop_args \<Rightarrow> real \<Rightarrow> 'a row \<Rightarrow> 'a row \<Rightarrow> 'a vars \<Rightarrow> error + 'a vars" where
  "exit_branch a Dt q p s =
     (if Dt > minutes_for_a_stop a then
        (case estimate_leaving (min_speed_kmh a) (dtime p) s of
           Inl e \<Rightarrow> Inl e
         | Inr (estimated_final_t, s') \<Rightarrow>
             Inr (reanchor p (emit (leaving_time a) (other q) estimated_final_t s')))
      else Inr (reanchor p s))"

text \<open>Lines 128 to 133: the gap branch; it has no \<open>continue\<close>, so the rest of the body
  runs after it.\<close>

definition gap_check :: "stop_args \<Rightarrow> 'a row \<Rightarrow> 'a row \<Rightarrow> 'a vars \<Rightarrow> 'a vars" where
  "gap_check a q p s =
     (if diff_seconds (dtime q) (dtime p) / 60 > no_data_for_minutes a then reanchor p s else s)"

text \<open>Lines 137 to 140: \<open>Dr / Dt * 60.\<close>, or \<open>0.\<close> when the division raises
  \<open>ZeroDivisionError\<close> (the only exception the expression can raise).\<close>

definition speed_sample :: "real \<Rightarrow> real \<Rightarrow> real" where
  "speed_sample Dr Dt = (case py_div Dr Dt of Inr v \<Rightarrow> v * 60 | Inl e \<Rightarrow> 0)"

text \<open>Lines 135 to 176: the speed sample and the radius test. The distance function
  \<open>gislib.getDistance\<close>, bound to the local \<open>measure_distance\<close>, is not among the sources and
  is a parameter.\<close>

definition radius_test ::
  "(real \<times> real \<Rightarrow> real \<times> real \<Rightarrow> real) \<Rightarrow> stop_args \<Rightarrow> 'a row \<Rightarrow> 'a row \<Rightarrow> 'a vars
     \<Rightarrow> error + 'a vars" where
  "radius_test measure_distance a q p s1 =
     (let Dt = diff_seconds (t_0 s1) (dtime p) / 60;
          Dr = measure_distance (lat_0 s1, lon_0 s1) (lat p, lng p);
          s2 = s1\<lparr>speeds_kmh := speeds_kmh s1 @ [speed_sample Dr Dt]\<rparr>
      in if Dr > stop_radius a then exit_branch a Dt q p s2 else Inr s2)"

text \<open>Lines 178 to 181.\<close>

definition accumulate :: "'a row \<Rightarrow> 'a vars \<Rightarrow> 'a vars" where
  "accumulate p s =
     s\<lparr>count := count s + 1, sum_lat := sum_lat s @ [lat p], sum_lon := sum_lon s @ [lng p],
       sum_t := sum_t s @ [dtime p]\<rparr>"

text \<open>One iteration of \<open>for i in range(lendata)\<close>, lines 126 to 181: \<open>p\<close> is row
  \<open>i + 1\<close>, read first, and \<open>q\<close> is row \<open>i\<close>.\<close>

definition loop_body ::
  "(real \<times> real \<Rightarrow> real \<times> real \<Rightarrow> real) \<Rightarrow> 'a row list \<Rightarrow> stop_args \<Rightarrow> nat \<Rightarrow> 'a vars
     \<Rightarrow> error + 'a vars" where
  "loop_body measure_distance lat_lng_dtime_other a i s =
     (case py_index lat_lng_dtime_other (i + 1) of
        Inl e \<Rightarrow> Inl e
      | Inr p \<Rightarrow>
          (case py_index lat_lng_dtime_other i of
             Inl e \<Rightarrow> Inl e
           | Inr q \<Rightarrow>
               (case radius_test measure_distance a q p (gap_check a q p s) of
                  Inl e \<Rightarrow> Inl e
                | Inr s3 \<Rightarrow> Inr (accumulate p s3))))"

text \<open>A \<open>for\<close> loop over a list of indices that stops at the first exception.\<close>

fun for_range :: "(nat \<Rightarrow> 's \<Rightarrow> error + 's) \<Rightarrow> nat list \<Rightarrow> 's \<Rightarrow> error + 's" where
  "for_range f [] s = Inr s"
| "for_range f (i # is) s = (case f i s of Inl e \<Rightarrow> Inl e | Inr s' \<Rightarrow> for_range f is s')"

text \<open>Lines 114 to 121: the variables before the loop, seeded with the first row.\<close>

definition init_vars :: "'a row \<Rightarrow> 'a vars" where
  "init_vars r =
     \<lparr>stops_l = [], leaving_times = [], lat_0 = lat r, lon_0 = lng r, t_0 = dtime r,
      sum_lat = [lat r], sum_lon = [lng r], sum_t = [dtime r], speeds_kmh = [], count = 1\<rparr>"

text \<open>The variables after the first \<open>n\<close> iterations.\<close>

definition run_loop ::
  "(real \<times> real \<Rightarrow> real \<times> real \<Rightarrow> real) \<Rightarrow> 'a row list \<Rightarrow> stop_args \<Rightarrow> nat \<Rightarrow> error + 'a vars" where
  "run_loop measure_distance lat_lng_dtime_other a n =
     (case py_index lat_lng_dtime_other 0 of
        Inl e \<Rightarrow> Inl e
      | Inr r \<Rightarrow> for_range (loop_body measure_distance lat_lng_dtime_other a) [0..<n] (init_vars r))"

definition stops_array ::
  "(real \<times> real \<Rightarrow> real \<times> real \<Rightarrow> real) \<Rightarrow> 'a row list \<Rightarrow> stop_args
     \<Rightarrow> error + ('a row list \<times> real list)" where
  "stops_array measure_distance lat_lng_dtime_other a =
     (case run_loop measure_distance lat_lng_dtime_other a (length lat_lng_dtime_other - 1) of
        Inl e \<Rightarrow> Inl e
      | Inr s \<Rightarrow> Inr (stops_l s, leaving_times s))"

subsection \<open>The transition rule read off the input\<close>

text \<open>The gap test of iteration \<open>i\<close> (line 128): more than \<open>no_data_for_minutes\<close> minutes
  between row \<open>i\<close> and row \<open>i + 1\<close>.\<close>

definition gap_at :: "'a row list \<Rightarrow> stop_args \<Rightarrow> nat \<Rightarrow> bool" where
  "gap_at rows a i =
     (diff_seconds (dtime (rows ! i)) (dtime (rows ! Suc i)) / 60 > no_data_for_minutes a)"

definition pos :: "'a row \<Rightarrow> real \<times> real" where
  "pos r = (lat r, lng r)"

text \<open>The index of the row that is the anchor after \<open>n\<close> iterations: the first row at the
  start; row \<open>i + 1\<close> after an iteration with a gap or with a radius exit; unchanged
  otherwise.\<close>

primrec anchor_at ::
  "(real \<times> real \<Rightarrow> real \<times> real \<Rightarrow> real) \<Rightarrow> 'a row list \<Rightarrow> stop_args \<Rightarrow> nat \<Rightarrow> nat" where
  "anchor_at d rows a 0 = 0"
| "anchor_at d rows a (Suc i) =
     (if gap_at rows a i \<or> d (pos (rows ! anchor_at d rows a i)) (pos (rows ! Suc i)) > stop_radius a
      then Suc i else anchor_at d rows a i)"

text \<open>Whether the anchor after \<open>n\<close> iterations was set by the gap branch and has not been
  replaced by a radius exit since (the gap iteration itself runs the radius test against the
  new anchor).\<close>

primrec gap_anchored ::
  "(real \<times> real \<Rightarrow> real \<times> real \<Rightarrow> real) \<Rightarrow> 'a row list \<Rightarrow> stop_args \<Rightarrow> nat \<Rightarrow> bool" where
  "gap_anchored d rows a 0 = False"
| "gap_anchored d rows a (Suc i) =
     (if gap_at rows a i then \<not> d (pos (rows ! Suc i)) (pos (rows ! Suc i)) > stop_radius a
      else if d (pos (rows ! anchor_at d rows a i)) (pos (rows ! Suc i)) > stop_radius a then False
      else gap_anchored d rows a i)"

text \<open>The confirmation test of iteration \<open>n\<close> in terms of the input: row \<open>n + 1\<close> is
  not separated from row \<open>n\<close> by a gap, it is farther than \<open>stop_radius\<close> from the anchor,
  and more than \<open>minutes_for_a_stop\<close> minutes have passed since the anchor's timestamp.\<close>

definition confirmed_exit ::
  "(real \<times> real \<Rightarrow> real \<times> real \<Rightarrow> real) \<Rightarrow> 'a row list \<Rightarrow> stop_args \<Rightarrow> nat \<Rightarrow> bool" where
  "confirmed_exit d rows a n =
     (\<not> gap_at rows a n \<and>
      d (pos (rows ! anchor_at d rows a n)) (pos (rows ! Suc n)) > stop_radius a \<and>
      diff_seconds (dtime (rows ! anchor_at d rows a n)) (dtime (rows ! Suc n)) / 60
        > minutes_for_a_stop a)"

text \<open>The rows from the anchor to row \<open>n\<close>, both included.\<close>

definition visited ::
  "(real \<times> real \<Rightarrow> real \<times> real \<Rightarrow> real) \<Rightarrow> 'a row list \<Rightarrow> stop_args \<Rightarrow> nat \<Rightarrow> 'a row list" where
  "visited d rows a n = take (Suc n - anchor_at d rows a n) (drop (anchor_at d rows a n) rows)"

text \<open>What the loop variables are after \<open>n\<close> iterations, in terms of the input.\<close>

definition tracks ::
  "(real \<times> real \<Rightarrow> real \<times> real \<Rightarrow> real) \<Rightarrow> 'a row list \<Rightarrow> stop_args \<Rightarrow> nat \<Rightarrow> 'a vars \<Rightarrow> bool" where
  "tracks d rows a n s =
     (lat_0 s = lat (rows ! anchor_at d rows a n) \<and>
      lon_0 s = lng (rows ! anchor_at d rows a n) \<and>
      t_0 s = dtime (rows ! anchor_at d rows a n) \<and>
      sum_lat s = map lat (visited d rows a n) \<and>
      sum_lon s = map lng (visited d rows a n) \<and>
      sum_t s = map dtime (visited d rows a n) \<and>
      length (speeds_kmh s) =
        n - anchor_at d rows a n + (if gap_anchored d rows a n then 1 else 0))"

text \<open>The row appended for a confirmed stop when the first \<open>k\<close> visited positions are kept.\<close>

definition stop_row :: "nat \<Rightarrow> 'a list \<Rightarrow> 'a vars \<Rightarrow> 'a row" where
  "stop_row k extra s =
     \<lparr>lat = median (take k (sum_lat s)), lng = median (take k (sum_lon s)), dtime = t_0 s,
      other = extra\<rparr>"

text \<open>How the two output lists change in iteration \<open>n\<close>, from the variables \<open>s\<close> before it to
  the variables \<open>s'\<close> after it.\<close>

definition outcome ::
  "(real \<times> real \<Rightarrow> real \<times> real \<Rightarrow> real) \<Rightarrow> 'a row list \<Rightarrow> stop_args \<Rightarrow> nat \<Rightarrow> 'a vars \<Rightarrow> 'a vars
     \<Rightarrow> bool" where
  "outcome d rows a n s s' =
     (if confirmed_exit d rows a n then
        (\<exists>est k. k \<le> length (sum_lat s) \<and>
           stops_l s' = stops_l s @ (if 0 < k then [stop_row k (other (rows ! n)) s] else []) \<and>
           leaving_times s' = leaving_times s @ (if 0 < k \<and> leaving_time a then [est] else []) \<and>
           (est = dtime (rows ! Suc n) \<or> est \<in> set (sum_t s)) \<and>
           (min_speed_kmh a = None \<longrightarrow> est = dtime (rows ! Suc n) \<and> k = length (sum_lat s)) \<and>
           (\<not> gap_anchored d rows a n \<longrightarrow> 0 < k))
      else stops_l s' = stops_l s \<and> leaving_times s' = leaving_times s)"

subsection \<open>The departure rule as the specification words it\<close>

text \<open>The rule of the specification for a set \<open>min_speed_kmh\<close>, kept apart from the code's
  \<open>estimate_leaving\<close> to compare the two: scan every sample of the speed sequence from the
  most recent one (offset \<open>1\<close>) to the oldest; at the first offset \<open>j\<close> whose sample is
  below the threshold the departure time is the timestamp \<open>j\<close> positions from the end and the
  last \<open>j\<close> positions are trimmed; with no such sample the departure time is the exit point's
  timestamp and nothing is trimmed.\<close>

definition claimed_leaving :: "real \<Rightarrow> real \<Rightarrow> 'a vars \<Rightarrow> real \<times> 'a vars" where
  "claimed_leaving m t s =
     (let n = length (speeds_kmh s)
      in case find (\<lambda>j. speeds_kmh s ! (n - j) < m) [1..<Suc n] of
           None \<Rightarrow> (t, s)
         | Some j \<Rightarrow>
             (sum_t s ! (length (sum_t s) - j),
              s\<lparr>sum_lat := take (length (sum_lat s) - j) (sum_lat s),
                sum_lon := take (length (sum_lon s) - j) (sum_lon s)\<rparr>))"

text \<open>The value of \<open>j\<close> after the scan of lines 150 to 153, written without the loop: the
  first of the offsets \<open>1, \<dots>, n - 1\<close> whose sample is below the threshold, and without
  one the last offset of the range, or \<open>1\<close> when the range is empty.\<close>

definition scan_offset :: "real list \<Rightarrow> real \<Rightarrow> nat" where
  "scan_offset speeds m =
     (case find (\<lambda>j. speeds ! (length speeds - j) < m) [1..<length speeds] of
        Some j \<Rightarrow> j
      | None \<Rightarrow> if 2 \<le> length speeds then length speeds - 1 else 1)"

text \<open>The loop variables without the list of leaving times.\<close>

definition forget_leaving :: "'a vars \<Rightarrow> 'a vars" where
  "forget_leaving s = s\<lparr>leaving_times := []\<rparr>"

subsection \<open>\<open>_stops_trajectory\<close> and \<open>stops\<close>\<close>

text \<open>A value stored in a dictionary of call arguments.\<close>

datatype pval = PFloat real | PBool bool | PStr string | PNone

text \<open>A \<open>TrajDataFrame\<close>, as far as this module looks at it: the matrix of its rows in the
  column order of \<open>utils.to_matrix\<close>, the column \<open>leaving_datetime\<close> when it has been
  attached, and the dictionary \<open>parameters\<close>, whose entries are dictionaries of call
  arguments. Dictionaries are association lists in insertion order.\<close>

record 'a tdf =
  tdf_rows :: "'a row list"
  leaving_datetime :: "real list option"
  parameters :: "(string \<times> (string \<times> pval) list) list"

text \<open>Lines 84 to 103. The conversions \<open>utils.to_matrix\<close> and \<open>nparray_to_trajdataframe\<close>
  and the reordering of the columns, none of them among the sources, change nothing in this
  representation; \<open>nparray_to_trajdataframe\<close> is given the empty parameter dictionary. The
  column is attached only under the flag.\<close>

definition stops_trajectory ::
  "(real \<times> real \<Rightarrow> real \<times> real \<Rightarrow> real) \<Rightarrow> 'a tdf \<Rightarrow> stop_args \<Rightarrow> error + 'a tdf" where
  "stops_trajectory measure_distance t a =
     (case stops_array measure_distance (tdf_rows t) a of
        Inl e \<Rightarrow> Inl e
      | Inr (stops, lts) \<Rightarrow>
          (let out = \<lparr>tdf_rows = stops, leaving_datetime = None, parameters = []\<rparr>
           in Inr (if leaving_time a then out\<lparr>leaving_datetime := Some lts\<rparr> else out)))"

text \<open>What \<open>stops\<close> uses and the sources do not hold: the sort, the two tests on the
  identifier columns, the split of \<open>groupby\<close> into its groups, the distance, and the four
  constants of \<open>constants\<close>.\<close>

record 'a frame_ops =
  sort_by_uid_and_datetime :: "'a tdf \<Rightarrow> 'a tdf"
  is_multi_user :: "'a tdf \<Rightarrow> bool"
  is_multi_trajectory :: "'a tdf \<Rightarrow> bool"
  groupby_groups :: "string list \<Rightarrow> 'a tdf \<Rightarrow> 'a tdf list"
  get_distance :: "real \<times> real \<Rightarrow> real \<times> real \<Rightarrow> real"
  UID :: string
  TID :: string
  COMPRESSION_PARAMS :: string
  DETECTION_PARAMS :: string

text \<open>\<open>d[k]\<close> on a dictionary raises \<open>KeyError\<close> for a missing key.\<close>

definition py_getitem :: "(string \<times> 'v) list \<Rightarrow> string \<Rightarrow> error + 'v" where
  "py_getitem d k = (case map_of d k of None \<Rightarrow> Inl KeyError | Some v \<Rightarrow> Inr v)"

text \<open>Lines 63 to 66: the radius recorded by a compression step replaces the argument; a
  \<open>KeyError\<close> of either lookup leaves the argument as it is.\<close>

definition resolve_radius :: "(string \<times> (string \<times> pval) list) list \<Rightarrow> string \<Rightarrow> pval \<Rightarrow> pval" where
  "resolve_radius params compression_key spatial_radius_km =
     (case py_getitem params compression_key of
        Inl e \<Rightarrow> spatial_radius_km
      | Inr c \<Rightarrow>
          (case py_getitem c ''spatial_radius_km'' of
             Inl e \<Rightarrow> spatial_radius_km
           | Inr v \<Rightarrow> v))"

text \<open>Line 67, \<open>spatial_radius_km * stop_radius_factor\<close>: a recorded value that is no number
  raises \<open>TypeError\<close>; a boolean counts as \<open>0\<close> or \<open>1\<close>.\<close>

definition py_mul :: "pval \<Rightarrow> real \<Rightarrow> error + real" where
  "py_mul v f =
     (case v of
        PFloat r \<Rightarrow> Inr (r * f)
      | PBool b \<Rightarrow> Inr ((if b then 1 else 0) * f)
      | PStr x \<Rightarrow> Inl TypeError
      | PNone \<Rightarrow> Inl TypeError)"

text \<open>The function applied to every group, stopping at the first exception.\<close>

fun apply_groups :: "('a tdf \<Rightarrow> error + 'a tdf) \<Rightarrow> 'a tdf list \<Rightarrow> error + 'a tdf list" where
  "apply_groups f [] = Inr []"
| "apply_groups f (g # gs) =
     (case f g of
        Inl e \<Rightarrow> Inl e
      | Inr r \<Rightarrow> (case apply_groups f gs of Inl e \<Rightarrow> Inl e | Inr rs \<Rightarrow> Inr (r # rs)))"

text \<open>Modelled from the spec: the concatenation that \<open>groupby(...).apply(...)\<close> performs is
  not among the sources; the stop records and the departure estimates of the groups are put
  together in group order.\<close>

definition concat_frames :: "'a tdf list \<Rightarrow> 'a tdf" where
  "concat_frames fs =
     \<lparr>tdf_rows = concat (map tdf_rows fs),
      leaving_datetime =
        (if list_all (\<lambda>f. leaving_datetime f \<noteq> None) fs
         then Some (concat (map (\<lambda>f. case leaving_datetime f of None \<Rightarrow> [] | Some l \<Rightarrow> l) fs))
         else None),
      parameters = []\<rparr>"

text \<open>Lines 55 to 60 and 69 to 77: the grouping keys and the call of \<open>_stops_trajectory\<close>,
  once for the whole frame or once for every group.\<close>

definition dispatch :: "'a frame_ops \<Rightarrow> 'a tdf \<Rightarrow> stop_args \<Rightarrow> error + 'a tdf" where
  "dispatch ops t a =
     (let groupby = (if is_multi_user ops t then [UID ops] else []) @
                    (if is_multi_trajectory ops t then [TID ops] else [])
      in if length groupby > 0 then
           (case apply_groups (\<lambda>g. stops_trajectory (get_distance ops) g a)
                   (groupby_groups ops groupby t) of
              Inl e \<Rightarrow> Inl e
            | Inr rs \<Rightarrow> Inr (concat_frames rs))
         else stops_trajectory (get_distance ops) t a)"

text \<open>Lines 50 to 53: the dictionary of the call's arguments, taken from the frame before any
  local is reassigned.\<close>

definition call_arguments ::
  "real \<Rightarrow> real \<Rightarrow> real \<Rightarrow> bool \<Rightarrow> real \<Rightarrow> real option \<Rightarrow> (string \<times> pval) list" where
  "call_arguments stop_radius_factor minutes spatial_radius_km lt no_data ms =
     [(''function'', PStr ''stops''),
      (''stop_radius_factor'', PFloat stop_radius_factor),
      (''minutes_for_a_stop'', PFloat minutes),
      (''spatial_radius_km'', PFloat spatial_radius_km),
      (''leaving_time'', PBool lt),
      (''no_data_for_minutes'', PFloat no_data),
      (''min_speed_kmh'', (case ms of None \<Rightarrow> PNone | Some v \<Rightarrow> PFloat v))]"

text \<open>Modelled from the spec: \<open>TrajDataFrame.set_parameter\<close> is not among the sources; it
  attaches the value to the frame as metadata, under the key in \<open>parameters\<close>.\<close>

definition set_parameter :: "string \<Rightarrow> (string \<times> pval) list \<Rightarrow> 'a tdf \<Rightarrow> 'a tdf" where
  "set_parameter key v t = t\<lparr>parameters := AList.update key v (parameters t)\<rparr>"

text \<open>\<open>stops\<close>, lines 47 to 81. The explicit \<open>spatial_radius_km\<close> is a float; the value
  recorded by a compression step is whatever the dictionary holds.\<close>

definition stops ::
  "'a frame_ops \<Rightarrow> 'a tdf \<Rightarrow> real \<Rightarrow> real \<Rightarrow> real \<Rightarrow> bool \<Rightarrow> real \<Rightarrow> real option
     \<Rightarrow> error + 'a tdf" where
  "stops ops tdf stop_radius_factor minutes spatial_radius_km lt no_data ms =
     (let tdf = sort_by_uid_and_datetime ops tdf;
          arguments = call_arguments stop_radius_factor minutes spatial_radius_km lt no_data ms;
          spatial_radius_km =
            resolve_radius (parameters tdf) (COMPRESSION_PARAMS ops) (PFloat spatial_radius_km)
      in case py_mul spatial_radius_km stop_radius_factor of
           Inl e \<Rightarrow> Inl e
         | Inr radius \<Rightarrow>
             (case dispatch ops tdf
                     \<lparr>stop_radius = radius, minutes_for_a_stop = minutes, leaving_time = lt,
                      no_data_for_minutes = no_data, min_speed_kmh = ms\<rparr> of
                Inl e \<Rightarrow> Inl e
              | Inr stdf \<Rightarrow>
                  Inr (set_parameter (DETECTION_PARAMS ops) arguments
                         (stdf\<lparr>parameters := parameters tdf\<rparr>))))"

text \<open>A stand-in for the distance in the concrete runs below: 111 km per degree along each
  axis. On one meridian it is the great-circle distance up to the rounding of the factor, and
  the concrete inputs keep every comparison clear of its threshold, so that the great-circle
  distance takes the same branches on them. The theorems hold for every distance function.\<close>

definition grid_km :: "real \<times> real \<Rightarrow> real \<times> real \<Rightarrow> real" where
  "grid_km a b = 111 * (\<bar>fst a - fst b\<bar> + \<bar>snd a - snd b\<bar>)"

subsection \<open>Concrete inputs\<close>

text \<open>The defaults of \<open>stops\<close>: radius \<open>0.2 * 0.5\<close> km, twenty minutes, no speed
  threshold.\<close>

definition args_default :: stop_args where
  "args_default =
     \<lparr>stop_radius = 1 / 10, minutes_for_a_stop = 20, leaving_time = True,
      no_data_for_minutes = 1000000000000, min_speed_kmh = None\<rparr>"

text \<open>Four points at one place at minutes 0, 5, 10 and 30, then a point one degree of
  latitude away at minute 35.\<close>

definition rows_stay :: "string row list" where
  "rows_stay =
     [\<lparr>lat = 0, lng = 0, dtime = 0, other = [''a'']\<rparr>,
      \<lparr>lat = 0, lng = 0, dtime = 300, other = [''b'']\<rparr>,
      \<lparr>lat = 0, lng = 0, dtime = 600, other = [''c'']\<rparr>,
      \<lparr>lat = 0, lng = 0, dtime = 1800, other = [''d'']\<rparr>,
      \<lparr>lat = 1, lng = 0, dtime = 2100, other = [''e'']\<rparr>]"

text \<open>A stop radius of one kilometre, gaps longer than an hour, and a speed threshold of
  1 km/h.\<close>

definition args_speed :: stop_args where
  "args_speed =
     \<lparr>stop_radius = 1, minutes_for_a_stop = 20, leaving_time = True,
      no_data_for_minutes = 60, min_speed_kmh = Some 1\<rparr>"

text \<open>An anchor, two points 0.005 degrees (about 555 m) away from it at minutes 10 and 30, and
  a point one degree away at minute 40. The speed samples are 3.33, 1.11 and 166.5 km/h, none
  below the threshold.\<close>

definition rows_fast :: "string row list" where
  "rows_fast =
     [\<lparr>lat = 0, lng = 0, dtime = 0, other = [''a'']\<rparr>,
      \<lparr>lat = 1 / 200, lng = 0, dtime = 600, other = [''b'']\<rparr>,
      \<lparr>lat = 1 / 200, lng = 0, dtime = 1800, other = [''c'']\<rparr>,
      \<lparr>lat = 1, lng = 0, dtime = 2400, other = [''d'']\<rparr>]"

text \<open>The same four points 2000 minutes after a first point elsewhere.\<close>

definition rows_gap :: "string row list" where
  "rows_gap =
     [\<lparr>lat = 10, lng = 10, dtime = 0, other = [''z'']\<rparr>,
      \<lparr>lat = 0, lng = 0, dtime = 120000, other = [''a'']\<rparr>,
      \<lparr>lat = 1 / 200, lng = 0, dtime = 120600, other = [''b'']\<rparr>,
      \<lparr>lat = 1 / 200, lng = 0, dtime = 121800, other = [''c'']\<rparr>,
      \<lparr>lat = 1, lng = 0, dtime = 122400, other = [''d'']\<rparr>]"

text \<open>Two points thirty minutes and one degree apart.\<close>

definition rows_two :: "string row list" where
  "rows_two =
     [\<lparr>lat = 0, lng = 0, dtime = 0, other = [''a'']\<rparr>,
      \<lparr>lat = 1, lng = 0, dtime = 1800, other = [''b'']\<rparr>]"

text \<open>The loop variables of \<open>rows_fast\<close> when the last point is tested: three visited
  points and the three speed samples.\<close>

definition acc_fast :: "string vars" where
  "acc_fast =
     \<lparr>stops_l = [], leaving_times = [], lat_0 = 0, lon_0 = 0, t_0 = 0,
      sum_lat = [0, 1 / 200, 1 / 200], sum_lon = [0, 0, 0], sum_t = [0, 600, 1800],
      speeds_kmh = [333 / 100, 111 / 100, 333 / 2], count = 3\<rparr>"

text \<open>Two visited points at the anchor, then an exit point reached at 11.1 km/h.\<close>

definition acc_slow :: "string vars" where
  "acc_slow =
     \<lparr>stops_l = [], leaving_times = [], lat_0 = 0, lon_0 = 0, t_0 = 0,
      sum_lat = [0, 0], sum_lon = [0, 0], sum_t = [0, 600],
      speeds_kmh = [0, 111 / 10], count = 2\<rparr>"

text \<open>One slow sample (0.666 km/h), the oldest, and the exit point's fast one.\<close>

definition acc_oldest :: "string vars" where
  "acc_oldest =
     \<lparr>stops_l = [], leaving_times = [], lat_0 = 0, lon_0 = 0, t_0 = 0,
      sum_lat = [0, 1 / 1000], sum_lon = [0, 0], sum_t = [0, 600],
      speeds_kmh = [333 / 500, 333 / 2], count = 2\<rparr>"


definition tdf_compressed :: "string tdf" where
  "tdf_compressed =
     \<lparr>tdf_rows = rows_stay, leaving_datetime = None,
      parameters = [(''compress'', [(''function'', PStr ''compress''),
                                    (''spatial_radius_km'', PFloat 2)])]\<rparr>"


section \<open>The loop variables in terms of the input\<close>

subsection \<open>The loop, one iteration at a time\<close>

lemma for_range_snoc:
  "for_range f (xs @ [i]) s = (case for_range f xs s of Inl e \<Rightarrow> Inl e | Inr s' \<Rightarrow> f i s')"
  by (induction xs arbitrary: s) (auto split: sum.splits)

lemma run_loop_Suc:
  "run_loop d rows a (Suc n) =
     (case run_loop d rows a n of Inl e \<Rightarrow> Inl e | Inr s \<Rightarrow> loop_body d rows a n s)"
  by (simp add: run_loop_def for_range_snoc split: sum.splits)

lemma anchor_at_le: "anchor_at d rows a n \<le> n"
  by (induction n) (auto simp: le_Suc_eq)

subsection \<open>The scan and the exit branch\<close>

text \<open>The scan returns the initial \<open>1\<close> or an offset of its range, so the index \<open>sum_t[-j]\<close> is in
  range whenever the speed sequence is at most one longer than the time sequence.\<close>

lemma scan_back_range:
  "\<forall>k \<in> set ks. 1 \<le> k \<and> k \<le> length speeds \<Longrightarrow>
     \<exists>j. scan_back ks speeds m j0 = Inr j \<and> (j = j0 \<or> j \<in> set ks)"
proof (induction ks arbitrary: j0)
  case Nil
  then show ?case by simp
next
  case (Cons k ks)
  then have k: "1 \<le> k" "k \<le> length speeds" by auto
  from Cons.prems have "\<forall>k \<in> set ks. 1 \<le> k \<and> k \<le> length speeds" by simp
  from Cons.IH[OF this, of k] obtain j where "scan_back ks speeds m k = Inr j" "j = k \<or> j \<in> set ks"
    by blast
  with k show ?case by (auto simp: py_index_neg_def)
qed

lemma scan_back_upt:
  "\<exists>j. scan_back [1..<length speeds] speeds m 1 = Inr j \<and> 1 \<le> j \<and> (j = 1 \<or> Suc j \<le> length speeds)"
proof -
  have "\<forall>k \<in> set [1..<length speeds]. 1 \<le> k \<and> k \<le> length speeds" by auto
  from scan_back_range[OF this, of m 1] show ?thesis by auto
qed

lemma visited_init: "rows \<noteq> [] \<Longrightarrow> visited d rows a 0 = [rows ! 0]"
  by (cases rows) (simp_all add: visited_def)

lemma tracks_init: "rows \<noteq> [] \<Longrightarrow> tracks d rows a 0 (init_vars (rows ! 0))"
  by (simp add: tracks_def init_vars_def visited_init)

lemma estimate_leaving_shape:
  assumes "length (sum_lat s) = N" "length (sum_lon s) = N" "length (sum_t s) = N"
    and "length (speeds_kmh s) \<le> Suc N"
  shows "\<exists>est k. estimate_leaving ms t s =
            Inr (est, s\<lparr>sum_lat := take k (sum_lat s), sum_lon := take k (sum_lon s)\<rparr>) \<and>
          k \<le> N \<and> (est = t \<or> est \<in> set (sum_t s)) \<and>
          (ms = None \<longrightarrow> est = t \<and> k = N) \<and>
          (length (speeds_kmh s) \<le> N \<longrightarrow> 0 < N \<longrightarrow> 0 < k)"
proof (cases ms)
  case None
  with assms show ?thesis
    by (intro exI[of _ t] exI[of _ N]) (simp add: estimate_leaving_def)
next
  case (Some m)
  obtain j where j: "scan_back [1..<length (speeds_kmh s)] (speeds_kmh s) m 1 = Inr j"
    "1 \<le> j" "j = 1 \<or> Suc j \<le> length (speeds_kmh s)"
    using scan_back_upt by blast
  show ?thesis
  proof (cases "j = 1")
    case True
    with Some j assms show ?thesis
      by (intro exI[of _ t] exI[of _ N]) (simp add: estimate_leaving_def)
  next
    case False
    with j assms have jN: "j \<le> N" "2 \<le> j" by auto
    have idx: "py_index_neg (sum_t s) j = Inr (sum_t s ! (N - j))"
      using jN assms by (simp add: py_index_neg_def)
    have mem: "sum_t s ! (N - j) \<in> set (sum_t s)"
      using jN assms by simp
    have "estimate_leaving ms t s =
            Inr (sum_t s ! (N - j), s\<lparr>sum_lat := take (N - j) (sum_lat s), sum_lon := take (N - j) (sum_lon s)\<rparr>)"
      using Some j False idx jN assms by (simp add: estimate_leaving_def py_slice_to_neg_def)
    moreover have "length (speeds_kmh s) \<le> N \<longrightarrow> 0 < N - j"
      using j False by auto
    ultimately show ?thesis
      using mem Some by (intro exI[of _ "sum_t s ! (N - j)"] exI[of _ "N - j"]) simp
  qed
qed

lemma radius_test_inside:
  assumes "\<not> d (lat_0 s1, lon_0 s1) (lat p, lng p) > stop_radius a"
  shows "radius_test d a q p s1 =
           Inr (s1\<lparr>speeds_kmh := speeds_kmh s1 @
                  [speed_sample (d (lat_0 s1, lon_0 s1) (lat p, lng p))
                     (diff_seconds (t_0 s1) (dtime p) / 60)]\<rparr>)"
  using assms by (simp add: radius_test_def Let_def)

lemma radius_test_rejected:
  assumes "d (lat_0 s1, lon_0 s1) (lat p, lng p) > stop_radius a"
    and "\<not> diff_seconds (t_0 s1) (dtime p) / 60 > minutes_for_a_stop a"
  shows "radius_test d a q p s1 = Inr (reanchor p s1)"
  using assms by (simp add: radius_test_def Let_def exit_branch_def reanchor_def)

lemma radius_test_confirmed:
  assumes lens: "length (sum_lat s1) = N" "length (sum_lon s1) = N" "length (sum_t s1) = N"
    and sp: "length (speeds_kmh s1) \<le> N"
    and out: "d (lat_0 s1, lon_0 s1) (lat p, lng p) > stop_radius a"
    and long: "diff_seconds (t_0 s1) (dtime p) / 60 > minutes_for_a_stop a"
  shows "\<exists>est k. radius_test d a q p s1 =
            Inr (reanchor p
                  (s1\<lparr>stops_l := stops_l s1 @ (if 0 < k then [stop_row k (other q) s1] else []),
                      leaving_times := leaving_times s1 @
                         (if 0 < k \<and> leaving_time a then [est] else [])\<rparr>)) \<and>
          k \<le> N \<and> (est = dtime p \<or> est \<in> set (sum_t s1)) \<and>
          (min_speed_kmh a = None \<longrightarrow> est = dtime p \<and> k = N) \<and>
          (length (speeds_kmh s1) < N \<longrightarrow> 0 < k)"
proof -
  define s2 where "s2 = s1\<lparr>speeds_kmh := speeds_kmh s1 @
      [speed_sample (d (lat_0 s1, lon_0 s1) (lat p, lng p)) (diff_seconds (t_0 s1) (dtime p) / 60)]\<rparr>"
  have l2: "length (sum_lat s2) = N" "length (sum_lon s2) = N" "length (sum_t s2) = N"
    "length (speeds_kmh s2) \<le> Suc N"
    using lens sp by (simp_all add: s2_def)
  from estimate_leaving_shape[OF l2, of "min_speed_kmh a" "dtime p"]
  obtain est k where e: "estimate_leaving (min_speed_kmh a) (dtime p) s2 =
        Inr (est, s2\<lparr>sum_lat := take k (sum_lat s2), sum_lon := take k (sum_lon s2)\<rparr>)"
    and k: "k \<le> N" and est: "est = dtime p \<or> est \<in> set (sum_t s2)"
    and none: "min_speed_kmh a = None \<longrightarrow> est = dtime p \<and> k = N"
    and pos: "length (speeds_kmh s2) \<le> N \<longrightarrow> 0 < N \<longrightarrow> 0 < k"
    by (elim exE conjE)
  have rt: "radius_test d a q p s1 =
      Inr (reanchor p (emit (leaving_time a) (other q) est
             (s2\<lparr>sum_lat := take k (sum_lat s2), sum_lon := take k (sum_lon s2)\<rparr>)))"
    using out long e by (simp add: radius_test_def Let_def exit_branch_def s2_def)
  have em: "reanchor p (emit (leaving_time a) (other q) est
             (s2\<lparr>sum_lat := take k (sum_lat s2), sum_lon := take k (sum_lon s2)\<rparr>)) =
        reanchor p
                  (s1\<lparr>stops_l := stops_l s1 @ (if 0 < k then [stop_row k (other q) s1] else []),
                      leaving_times := leaving_times s1 @
                         (if 0 < k \<and> leaving_time a then [est] else [])\<rparr>)"
    using k lens by (simp add: emit_def reanchor_def s2_def stop_row_def Let_def min_def)
  have "length (speeds_kmh s1) < N \<longrightarrow> 0 < k"
    using pos by (auto simp: s2_def)
  moreover have "est = dtime p \<or> est \<in> set (sum_t s1)"
    using est by (simp add: s2_def)
  ultimately show ?thesis
    using rt em k none by (intro exI[of _ est] exI[of _ k]) simp
qed

subsection \<open>The visited rows\<close>

lemma length_visited: "n < length rows \<Longrightarrow> length (visited d rows a n) = Suc n - anchor_at d rows a n"
  by (simp add: visited_def)

lemma visited_fresh:
  "Suc n < length rows \<Longrightarrow> anchor_at d rows a (Suc n) = Suc n \<Longrightarrow>
     visited d rows a (Suc n) = [rows ! Suc n]"
  by (simp add: visited_def take_Suc_conv_app_nth del: anchor_at.simps)

lemma visited_grow:
  assumes "Suc n < length rows" "anchor_at d rows a (Suc n) = anchor_at d rows a n"
  shows "visited d rows a (Suc n) = visited d rows a n @ [rows ! Suc n]"
proof -
  let ?k = "anchor_at d rows a n"
  have k: "?k \<le> n" by (rule anchor_at_le)
  have "Suc (Suc n) - ?k = Suc (Suc n - ?k)" using k by simp
  moreover have "Suc n - ?k < length (drop ?k rows)" using assms k by simp
  moreover have "drop ?k rows ! (Suc n - ?k) = rows ! Suc n" using assms k by simp
  ultimately show ?thesis
    unfolding visited_def assms(2) by (simp add: take_Suc_conv_app_nth)
qed

lemma tracks_fresh:
  assumes "Suc n < length rows" "anchor_at d rows a (Suc n) = Suc n"
    "\<not> gap_anchored d rows a (Suc n)"
  shows "tracks d rows a (Suc n) (accumulate (rows ! Suc n) (reanchor (rows ! Suc n) x))"
  unfolding tracks_def using assms
  by (simp add: visited_fresh accumulate_def reanchor_def del: anchor_at.simps gap_anchored.simps)

lemma reanchor_stops [simp]:
  "stops_l (reanchor p s) = stops_l s" "leaving_times (reanchor p s) = leaving_times s"
  by (simp_all add: reanchor_def)

lemma accumulate_stops [simp]:
  "stops_l (accumulate p s) = stops_l s" "leaving_times (accumulate p s) = leaving_times s"
  by (simp_all add: accumulate_def)

lemma reanchor_lens [simp]:
  "sum_lat (reanchor p s) = []" "sum_lon (reanchor p s) = []" "sum_t (reanchor p s) = []"
  "speeds_kmh (reanchor p s) = []" "lat_0 (reanchor p s) = lat p" "lon_0 (reanchor p s) = lng p"
  "t_0 (reanchor p s) = dtime p"
  by (simp_all add: reanchor_def)

lemma reanchor_twice [simp]: "reanchor p (reanchor p s) = reanchor p s"
  by (simp add: reanchor_def)

subsection \<open>The invariant\<close>

text \<open>Every iteration keeps \<open>tracks\<close> and changes the output lists as \<open>outcome\<close> says.\<close>

lemma loop_body_gap:
  assumes n: "Suc n < length rows" and gap: "gap_at rows a n"
  shows "\<exists>s'. loop_body d rows a n s = Inr s' \<and> tracks d rows a (Suc n) s' \<and>
           stops_l s' = stops_l s \<and> leaving_times s' = leaving_times s"
proof -
  let ?p = "rows ! Suc n" and ?q = "rows ! n"
  let ?s1 = "reanchor ?p s"
  have body: "loop_body d rows a n s =
      (case radius_test d a ?q ?p ?s1 of Inl e \<Rightarrow> Inl e | Inr s3 \<Rightarrow> Inr (accumulate ?p s3))"
    using n gap by (simp add: loop_body_def py_index_def gap_check_def gap_at_def)
  have anc: "anchor_at d rows a (Suc n) = Suc n" using gap by simp
  show ?thesis
  proof (cases "d (pos ?p) (pos ?p) > stop_radius a")
    case False
    then have "radius_test d a ?q ?p ?s1 =
        Inr (?s1\<lparr>speeds_kmh := [speed_sample (d (pos ?p) (pos ?p)) (diff_seconds (dtime ?p) (dtime ?p) / 60)]\<rparr>)"
      using radius_test_inside[where d = d and a = a and q = ?q and p = ?p and ?s1.0 = ?s1]
      by (simp add: pos_def)
    moreover have "gap_anchored d rows a (Suc n)" using gap False by simp
    ultimately show ?thesis
      unfolding body tracks_def using n anc
      by (simp add: visited_fresh accumulate_def del: anchor_at.simps gap_anchored.simps)
  next
    case True
    then have ng: "\<not> gap_anchored d rows a (Suc n)" using gap by simp
    have out: "d (lat_0 ?s1, lon_0 ?s1) (lat ?p, lng ?p) > stop_radius a"
      using True by (simp add: pos_def)
    show ?thesis
    proof (cases "diff_seconds (t_0 ?s1) (dtime ?p) / 60 > minutes_for_a_stop a")
      case False
      from radius_test_rejected[where d = d, OF out False]
      have "radius_test d a ?q ?p ?s1 = Inr ?s1" by simp
      then show ?thesis
        unfolding body using tracks_fresh[OF n anc ng, of s] by simp
    next
      case long: True
      have "length (sum_lat ?s1) = 0" "length (sum_lon ?s1) = 0" "length (sum_t ?s1) = 0"
        "length (speeds_kmh ?s1) \<le> 0" by simp_all
      from radius_test_confirmed[where d = d and q = ?q, OF this out long]
      obtain est k where "radius_test d a ?q ?p ?s1 =
            Inr (reanchor ?p
                  (?s1\<lparr>stops_l := stops_l ?s1 @ (if 0 < k then [stop_row k (other ?q) ?s1] else []),
                      leaving_times := leaving_times ?s1 @
                         (if 0 < k \<and> leaving_time a then [est] else [])\<rparr>))" "k \<le> 0"
        by (elim exE conjE)
      then have "radius_test d a ?q ?p ?s1 = Inr ?s1"
        by (simp add: reanchor_def)
      then show ?thesis
        unfolding body using tracks_fresh[OF n anc ng, of s] by simp
    qed
  qed
qed

lemma loop_body_nogap:
  assumes n: "Suc n < length rows" and tr: "tracks d rows a n s" and ng: "\<not> gap_at rows a n"
  shows "\<exists>s'. loop_body d rows a n s = Inr s' \<and> tracks d rows a (Suc n) s' \<and>
           outcome d rows a n s s'"
proof -
  let ?p = "rows ! Suc n" and ?q = "rows ! n"
  let ?k = "anchor_at d rows a n"
  let ?Dr = "d (pos (rows ! ?k)) (pos ?p)"
  let ?Dt = "diff_seconds (dtime (rows ! ?k)) (dtime ?p) / 60"
  have body: "loop_body d rows a n s =
      (case radius_test d a ?q ?p s of Inl e \<Rightarrow> Inl e | Inr s3 \<Rightarrow> Inr (accumulate ?p s3))"
    using n ng by (simp add: loop_body_def py_index_def gap_check_def gap_at_def)
  have k: "?k \<le> n" by (rule anchor_at_le)
  have anchor: "lat_0 s = lat (rows ! ?k)" "lon_0 s = lng (rows ! ?k)" "t_0 s = dtime (rows ! ?k)"
    using tr by (simp_all add: tracks_def)
  have Dr: "d (lat_0 s, lon_0 s) (lat ?p, lng ?p) = ?Dr"
    by (simp add: anchor pos_def)
  have Dt: "diff_seconds (t_0 s) (dtime ?p) / 60 = ?Dt"
    by (simp add: anchor)
  have N: "length (visited d rows a n) = Suc n - ?k"
    using n by (simp add: length_visited)
  have lens: "length (sum_lat s) = Suc n - ?k" "length (sum_lon s) = Suc n - ?k"
    "length (sum_t s) = Suc n - ?k"
    using tr N by (simp_all add: tracks_def)
  have sp: "length (speeds_kmh s) = n - ?k + (if gap_anchored d rows a n then 1 else 0)"
    using tr by (simp add: tracks_def)
  show ?thesis
  proof (cases "?Dr > stop_radius a")
    case False
    then have rt: "radius_test d a ?q ?p s =
        Inr (s\<lparr>speeds_kmh := speeds_kmh s @ [speed_sample ?Dr ?Dt]\<rparr>)"
      using radius_test_inside[where d = d and a = a and q = ?q and p = ?p and ?s1.0 = s]
      by (simp add: Dr Dt)
    have anc: "anchor_at d rows a (Suc n) = ?k" using False ng by simp
    have ga: "gap_anchored d rows a (Suc n) = gap_anchored d rows a n" using False ng by simp
    have nc: "\<not> confirmed_exit d rows a n" using False by (simp add: confirmed_exit_def)
    have "tracks d rows a (Suc n)
            (accumulate ?p (s\<lparr>speeds_kmh := speeds_kmh s @ [speed_sample ?Dr ?Dt]\<rparr>))"
      unfolding tracks_def anc ga using tr k visited_grow[OF n anc]
      by (simp add: tracks_def accumulate_def Suc_diff_le)
    then show ?thesis
      unfolding body rt using nc by (simp add: outcome_def)
  next
    case True
    then have anc: "anchor_at d rows a (Suc n) = Suc n" by simp
    have ga: "\<not> gap_anchored d rows a (Suc n)" using True ng by simp
    have out: "d (lat_0 s, lon_0 s) (lat ?p, lng ?p) > stop_radius a"
      using True by (simp add: Dr)
    show ?thesis
    proof (cases "?Dt > minutes_for_a_stop a")
      case False
      then have "\<not> diff_seconds (t_0 s) (dtime ?p) / 60 > minutes_for_a_stop a"
        by (simp add: Dt)
      from radius_test_rejected[where d = d, OF out this]
      have rt: "radius_test d a ?q ?p s = Inr (reanchor ?p s)" .
      have nc: "\<not> confirmed_exit d rows a n" using False by (simp add: confirmed_exit_def)
      show ?thesis
        unfolding body rt using tracks_fresh[OF n anc ga, of s] nc by (simp add: outcome_def)
    next
      case long: True
      then have long': "diff_seconds (t_0 s) (dtime ?p) / 60 > minutes_for_a_stop a"
        by (simp add: Dt)
      have c: "confirmed_exit d rows a n" using True long ng by (simp add: confirmed_exit_def)
      have sp': "length (speeds_kmh s) \<le> Suc n - ?k" using sp k by auto
      from radius_test_confirmed[where d = d and q = ?q, OF lens sp' out long']
      obtain est j where rt: "radius_test d a ?q ?p s =
            Inr (reanchor ?p
                  (s\<lparr>stops_l := stops_l s @ (if 0 < j then [stop_row j (other ?q) s] else []),
                      leaving_times := leaving_times s @
                         (if 0 < j \<and> leaving_time a then [est] else [])\<rparr>))"
        and j: "j \<le> Suc n - ?k" and est: "est = dtime ?p \<or> est \<in> set (sum_t s)"
        and none: "min_speed_kmh a = None \<longrightarrow> est = dtime ?p \<and> j = Suc n - ?k"
        and pos: "length (speeds_kmh s) < Suc n - ?k \<longrightarrow> 0 < j"
        by (elim exE conjE)
      have pos': "\<not> gap_anchored d rows a n \<longrightarrow> 0 < j"
        using pos sp k by auto
      let ?x = "s\<lparr>stops_l := stops_l s @ (if 0 < j then [stop_row j (other ?q) s] else []),
                      leaving_times := leaving_times s @
                         (if 0 < j \<and> leaving_time a then [est] else [])\<rparr>"
      have "outcome d rows a n s (accumulate ?p (reanchor ?p ?x))"
        unfolding outcome_def using c j est none pos' lens
        by (auto intro!: exI[of _ est] exI[of _ j])
      then show ?thesis
        unfolding body rt using tracks_fresh[OF n anc ga, of ?x] by simp
    qed
  qed
qed

lemma loop_body_tracks:
  assumes n: "Suc n < length rows" and tr: "tracks d rows a n s"
  shows "\<exists>s'. loop_body d rows a n s = Inr s' \<and> tracks d rows a (Suc n) s' \<and>
           outcome d rows a n s s'"
proof (cases "gap_at rows a n")
  case True
  from loop_body_gap[OF n True, of d s] obtain s' where
    "loop_body d rows a n s = Inr s'" "tracks d rows a (Suc n) s'"
    "stops_l s' = stops_l s" "leaving_times s' = leaving_times s" by (elim exE conjE)
  moreover have "\<not> confirmed_exit d rows a n" using True by (simp add: confirmed_exit_def)
  ultimately show ?thesis by (simp add: outcome_def)
next
  case False
  from loop_body_nogap[OF n tr False] show ?thesis .
qed

lemma run_loop_tracks:
  assumes "n < length rows"
  shows "\<exists>s. run_loop d rows a n = Inr s \<and> tracks d rows a n s"
  using assms
proof (induction n)
  case 0
  then have "rows \<noteq> []" by auto
  then show ?case
    using 0 by (simp add: run_loop_def py_index_def tracks_init)
next
  case (Suc n)
  then obtain s where s: "run_loop d rows a n = Inr s" "tracks d rows a n s" by auto
  from loop_body_tracks[OF Suc.prems s(2)] obtain s' where
    "loop_body d rows a n s = Inr s'" "tracks d rows a (Suc n) s'" by blast
  with s show ?case by (simp add: run_loop_Suc)
qed

lemma run_loop_step:
  assumes "Suc n < length rows"
  shows "\<exists>s s'. run_loop d rows a n = Inr s \<and> run_loop d rows a (Suc n) = Inr s' \<and>
           loop_body d rows a n s = Inr s' \<and>
           tracks d rows a n s \<and> tracks d rows a (Suc n) s' \<and> outcome d rows a n s s'"
proof -
  from assms have "n < length rows" by simp
  from run_loop_tracks[OF this] obtain s where s: "run_loop d rows a n = Inr s" "tracks d rows a n s"
    by blast
  from loop_body_tracks[OF assms s(2)] obtain s' where
    "loop_body d rows a n s = Inr s'" "tracks d rows a (Suc n) s'" "outcome d rows a n s s'"
    by blast
  with s show ?thesis by (simp add: run_loop_Suc)
qed

subsection \<open>Consequences of the invariant\<close>

lemma visited_nth:
  assumes "n < length rows" "x \<in> set (visited d rows a n)"
  shows "\<exists>j. anchor_at d rows a n \<le> j \<and> j \<le> n \<and> x = rows ! j"
proof -
  let ?k = "anchor_at d rows a n"
  have k: "?k \<le> n" by (rule anchor_at_le)
  from assms(2) obtain i where i: "i < length (visited d rows a n)" "x = visited d rows a n ! i"
    by (auto simp: in_set_conv_nth)
  from i(1) have "i < Suc n - ?k" using assms(1) by (simp add: length_visited)
  moreover from this have "visited d rows a n ! i = rows ! (?k + i)"
    using assms(1) k by (simp add: visited_def)
  ultimately show ?thesis using i(2) by (intro exI[of _ "?k + i"]) auto
qed

lemma last_visited:
  assumes "n < length rows"
  shows "visited d rows a n \<noteq> [] \<and> last (visited d rows a n) = rows ! n"
proof -
  let ?k = "anchor_at d rows a n"
  have k: "?k \<le> n" by (rule anchor_at_le)
  have len: "length (visited d rows a n) = Suc n - ?k" using assms by (rule length_visited)
  then have ne: "visited d rows a n \<noteq> []" using k by (cases "visited d rows a n") auto
  have "last (visited d rows a n) = visited d rows a n ! (n - ?k)"
    using ne len k by (simp add: last_conv_nth)
  also have "\<dots> = rows ! n" using assms k by (simp add: visited_def)
  finally show ?thesis using ne by simp
qed

lemma run_within:
  "anchor_at d rows a n < j \<Longrightarrow> j \<le> n \<Longrightarrow>
     \<not> d (pos (rows ! anchor_at d rows a n)) (pos (rows ! j)) > stop_radius a \<and>
     \<not> gap_at rows a (j - 1)"
proof (induction n)
  case 0
  then show ?case by simp
next
  case (Suc n)
  show ?case
  proof (cases "gap_at rows a n \<or>
      d (pos (rows ! anchor_at d rows a n)) (pos (rows ! Suc n)) > stop_radius a")
    case True
    then have "anchor_at d rows a (Suc n) = Suc n" by auto
    with Suc.prems show ?thesis by simp
  next
    case False
    then have anc: "anchor_at d rows a (Suc n) = anchor_at d rows a n" by auto
    show ?thesis
    proof (cases "j = Suc n")
      case True
      with False anc show ?thesis by simp
    next
      case False
      with Suc.prems anc have "anchor_at d rows a n < j" "j \<le> n" by auto
      from Suc.IH[OF this] show ?thesis unfolding anc .
    qed
  qed
qed

lemma sorted_dtime_mono:
  assumes "sorted (map dtime rows)" "i \<le> j" "j < length rows"
  shows "dtime (rows ! i) \<le> dtime (rows ! j)"
proof -
  from assms have "map dtime rows ! i \<le> map dtime rows ! j"
    by (intro sorted_nth_mono) simp_all
  with assms show ?thesis by simp
qed

lemma run_loop_lists:
  assumes "n < length rows"
  shows "\<exists>s. run_loop d rows a n = Inr s \<and>
          (if leaving_time a then length (leaving_times s) = length (stops_l s)
           else leaving_times s = [])"
  using assms
proof (induction n)
  case 0
  then show ?case by (simp add: run_loop_def py_index_def init_vars_def)
next
  case (Suc n)
  from run_loop_step[OF Suc.prems, of d a] obtain s s' where
    s: "run_loop d rows a n = Inr s" "run_loop d rows a (Suc n) = Inr s'"
    "outcome d rows a n s s'" by blast
  from Suc.IH s(1) Suc.prems have
    ih: "if leaving_time a then length (leaving_times s) = length (stops_l s)
         else leaving_times s = []" by simp
  have "if leaving_time a then length (leaving_times s') = length (stops_l s')
         else leaving_times s' = []"
  proof (cases "confirmed_exit d rows a n")
    case True
    with s(3) obtain est k where
      "stops_l s' = stops_l s @ (if 0 < k then [stop_row k (other (rows ! n)) s] else [])"
      "leaving_times s' = leaving_times s @ (if 0 < k \<and> leaving_time a then [est] else [])"
      unfolding outcome_def by auto
    with ih show ?thesis by (simp split: if_splits)
  next
    case False
    with s(3) ih show ?thesis by (simp add: outcome_def)
  qed
  with s(2) show ?case by simp
qed

lemma stops_array_Inr:
  assumes "rows \<noteq> []"
  shows "\<exists>s. run_loop d rows a (length rows - 1) = Inr s \<and>
           stops_array d rows a = Inr (stops_l s, leaving_times s)"
proof -
  from assms have "length rows - 1 < length rows" by (cases rows) simp_all
  from run_loop_tracks[OF this] obtain s where "run_loop d rows a (length rows - 1) = Inr s"
    by blast
  then show ?thesis by (simp add: stops_array_def)
qed

lemma gap_anchored_gap: "gap_anchored d rows a n \<Longrightarrow> \<exists>i<n. gap_at rows a i"
proof (induction n)
  case 0
  then show ?case by simp
next
  case (Suc n)
  show ?case
  proof (cases "gap_at rows a n")
    case True
    then show ?thesis by blast
  next
    case False
    with Suc.prems have "gap_anchored d rows a n" by (simp split: if_splits)
    from Suc.IH[OF this] show ?thesis using less_Suc_eq by blast
  qed
qed

lemma outcome_confirmedE:
  assumes "outcome d rows a n s s'" "confirmed_exit d rows a n"
  obtains est k where "k \<le> length (sum_lat s)"
    "stops_l s' = stops_l s @ (if 0 < k then [stop_row k (other (rows ! n)) s] else [])"
    "leaving_times s' = leaving_times s @ (if 0 < k \<and> leaving_time a then [est] else [])"
    "est = dtime (rows ! Suc n) \<or> est \<in> set (sum_t s)"
    "min_speed_kmh a = None \<longrightarrow> est = dtime (rows ! Suc n) \<and> k = length (sum_lat s)"
    "\<not> gap_anchored d rows a n \<longrightarrow> 0 < k"
proof -
  from assms have "\<exists>est k. k \<le> length (sum_lat s) \<and>
           stops_l s' = stops_l s @ (if 0 < k then [stop_row k (other (rows ! n)) s] else []) \<and>
           leaving_times s' = leaving_times s @ (if 0 < k \<and> leaving_time a then [est] else []) \<and>
           (est = dtime (rows ! Suc n) \<or> est \<in> set (sum_t s)) \<and>
           (min_speed_kmh a = None \<longrightarrow> est = dtime (rows ! Suc n) \<and> k = length (sum_lat s)) \<and>
           (\<not> gap_anchored d rows a n \<longrightarrow> 0 < k)"
    by (simp add: outcome_def)
  then show thesis using that by (elim exE conjE)
qed

lemma outcome_unconfirmed:
  assumes "outcome d rows a n s s'" "\<not> confirmed_exit d rows a n"
  shows "stops_l s' = stops_l s" "leaving_times s' = leaving_times s"
  using assms by (simp_all add: outcome_def)

lemma no_exit_no_stop_run:
  assumes "\<forall>i. Suc i < length rows \<longrightarrow> \<not> confirmed_exit d rows a i" "n < length rows"
  shows "\<exists>s. run_loop d rows a n = Inr s \<and> stops_l s = [] \<and> leaving_times s = []"
  using assms(2)
proof (induction n)
  case 0
  then show ?case by (simp add: run_loop_def py_index_def init_vars_def)
next
  case (Suc n)
  from run_loop_step[OF Suc.prems, of d a] obtain s s' where
    s: "run_loop d rows a n = Inr s" "run_loop d rows a (Suc n) = Inr s'"
    "outcome d rows a n s s'" by blast
  from Suc.IH Suc.prems s(1) have e: "stops_l s = []" "leaving_times s = []" by simp_all
  from assms(1) Suc.prems have "\<not> confirmed_exit d rows a n" by simp
  from outcome_unconfirmed[OF s(3) this] e s(2) show ?case by simp
qed

lemma no_exit_no_stop:
  assumes "rows \<noteq> []" "\<forall>i. Suc i < length rows \<longrightarrow> \<not> confirmed_exit d rows a i"
  shows "stops_array d rows a = Inr ([], [])"
proof -
  from assms(1) have "length rows - 1 < length rows" by (cases rows) simp_all
  from no_exit_no_stop_run[OF assms(2) this] show ?thesis
    by (auto simp: stops_array_def)
qed

subsection \<open>The scan without the loop\<close>

lemma scan_back_find:
  assumes "\<forall>k \<in> set ks. 1 \<le> k \<and> k \<le> length speeds"
  shows "scan_back ks speeds m j0 =
           Inr (case find (\<lambda>k. speeds ! (length speeds - k) < m) ks of
                  Some k \<Rightarrow> k
                | None \<Rightarrow> last (j0 # ks))"
  using assms
proof (induction ks arbitrary: j0)
  case Nil
  then show ?case by simp
next
  case (Cons k ks)
  then have k: "1 \<le> k" "k \<le> length speeds" by auto
  from Cons.prems have "\<forall>k \<in> set ks. 1 \<le> k \<and> k \<le> length speeds" by simp
  from Cons.IH[OF this, of k] k show ?case
    by (simp add: py_index_neg_def split: option.splits)
qed

lemma last_upt_from_1: "last (1 # [1..<n]) = (if 2 \<le> n then n - 1 else 1)"
  by (cases "2 \<le> n") (simp_all add: last_upt)

lemma scan_back_offset:
  "scan_back [1..<length speeds] speeds m 1 = Inr (scan_offset speeds m)"
proof -
  have r: "\<forall>k \<in> set [1..<length speeds]. 1 \<le> k \<and> k \<le> length speeds" by auto
  show ?thesis
    unfolding scan_back_find[OF r] scan_offset_def by (simp only: last_upt_from_1)
qed

lemma scan_offset_bounds:
  "1 \<le> scan_offset speeds m \<and>
   (scan_offset speeds m = 1 \<or> Suc (scan_offset speeds m) \<le> length speeds)"
proof -
  obtain j where "scan_back [1..<length speeds] speeds m 1 = Inr j" "1 \<le> j"
    "j = 1 \<or> Suc j \<le> length speeds"
    using scan_back_upt by blast
  moreover from this(1) have "j = scan_offset speeds m"
    by (simp only: scan_back_offset sum.inject)
  ultimately show ?thesis by simp
qed

lemma estimate_leaving_closed:
  assumes "length (speeds_kmh s) \<le> Suc (length (sum_t s))"
  shows "estimate_leaving (Some m) t s =
     Inr (if scan_offset (speeds_kmh s) m = 1 then (t, s)
          else (sum_t s ! (length (sum_t s) - scan_offset (speeds_kmh s) m),
                s\<lparr>sum_lat := take (length (sum_lat s) - scan_offset (speeds_kmh s) m) (sum_lat s),
                  sum_lon := take (length (sum_lon s) - scan_offset (speeds_kmh s) m) (sum_lon s)\<rparr>))"
proof -
  let ?j = "scan_offset (speeds_kmh s) m"
  have jb: "1 \<le> ?j" "?j = 1 \<or> Suc ?j \<le> length (speeds_kmh s)"
    using scan_offset_bounds[of "speeds_kmh s" m] by simp_all
  show ?thesis
  proof (cases "?j = 1")
    case True
    then show ?thesis
      using scan_back_offset[of "speeds_kmh s" m] by (simp add: estimate_leaving_def)
  next
    case False
    with jb assms have "?j \<le> length (sum_t s)" "?j \<noteq> 0" by auto
    with False show ?thesis
      using scan_back_offset[of "speeds_kmh s" m]
      by (simp add: estimate_leaving_def py_index_neg_def py_slice_to_neg_def)
  qed
qed

lemma confirmed_exit_step:
  assumes n: "Suc n < length rows" and ms: "min_speed_kmh a = Some m"
    and c: "confirmed_exit d rows a n"
    and tr: "tracks d rows a n s"
  shows "loop_body d rows a n s =
     Inr (let speeds = speeds_kmh s @
                [speed_sample (d (pos (rows ! anchor_at d rows a n)) (pos (rows ! Suc n)))
                   (diff_seconds (dtime (rows ! anchor_at d rows a n)) (dtime (rows ! Suc n)) / 60)];
              j = scan_offset speeds m;
              kept = (if j = 1 then length (sum_lat s) else length (sum_lat s) - j);
              est = (if j = 1 then dtime (rows ! Suc n) else sum_t s ! (length (sum_t s) - j))
          in accumulate (rows ! Suc n) (reanchor (rows ! Suc n)
               (s\<lparr>stops_l := stops_l s @
                      (if 0 < kept then [stop_row kept (other (rows ! n)) s] else []),
                   leaving_times := leaving_times s @
                      (if 0 < kept \<and> leaving_time a then [est] else [])\<rparr>)))"
proof -
  let ?p = "rows ! Suc n" and ?q = "rows ! n"
  let ?k = "anchor_at d rows a n"
  let ?Dr = "d (pos (rows ! ?k)) (pos ?p)"
  let ?Dt = "diff_seconds (dtime (rows ! ?k)) (dtime ?p) / 60"
  let ?s2 = "s\<lparr>speeds_kmh := speeds_kmh s @ [speed_sample ?Dr ?Dt]\<rparr>"
  let ?j = "scan_offset (speeds_kmh s @ [speed_sample ?Dr ?Dt]) m"
  from c have ng: "\<not> gap_at rows a n" and out: "?Dr > stop_radius a"
    and long: "?Dt > minutes_for_a_stop a"
    by (simp_all add: confirmed_exit_def)
  have k: "?k \<le> n" by (rule anchor_at_le)
  have anchor: "lat_0 s = lat (rows ! ?k)" "lon_0 s = lng (rows ! ?k)" "t_0 s = dtime (rows ! ?k)"
    using tr by (simp_all add: tracks_def)
  have N: "length (visited d rows a n) = Suc n - ?k"
    using n by (simp add: length_visited)
  have lens: "length (sum_lat s) = Suc n - ?k" "length (sum_lon s) = Suc n - ?k"
    "length (sum_t s) = Suc n - ?k"
    using tr N by (simp_all add: tracks_def)
  have "length (speeds_kmh s) = n - ?k + (if gap_anchored d rows a n then 1 else 0)"
    using tr by (simp add: tracks_def)
  then have "length (speeds_kmh s) \<le> Suc n - ?k" using k by (simp split: if_splits)
  then have sp: "length (speeds_kmh ?s2) \<le> Suc (length (sum_t ?s2))"
    using lens by simp
  have body: "loop_body d rows a n s =
      (case radius_test d a ?q ?p s of Inl e \<Rightarrow> Inl e | Inr s3 \<Rightarrow> Inr (accumulate ?p s3))"
    using n ng by (simp add: loop_body_def py_index_def gap_check_def gap_at_def)
  have rt: "radius_test d a ?q ?p s = exit_branch a ?Dt ?q ?p ?s2"
    using out by (simp add: radius_test_def Let_def anchor pos_def)
  have est: "estimate_leaving (min_speed_kmh a) (dtime ?p) ?s2 =
     Inr (if ?j = 1 then (dtime ?p, ?s2)
          else (sum_t s ! (length (sum_t s) - ?j),
                ?s2\<lparr>sum_lat := take (length (sum_lat s) - ?j) (sum_lat s),
                    sum_lon := take (length (sum_lon s) - ?j) (sum_lon s)\<rparr>))"
    using estimate_leaving_closed[OF sp, of m "dtime ?p"] by (simp add: ms)
  have ne: "sum_lat s \<noteq> []" using lens k by auto
  have eqs: "length (sum_lon s) = length (sum_lat s)" using lens by simp
  show ?thesis
  proof (cases "?j = 1")
    case True
    with est long ne eqs show ?thesis
      unfolding body rt Let_def
      by (simp add: exit_branch_def emit_def reanchor_def accumulate_def stop_row_def)
  next
    case False
    with est long eqs show ?thesis
      unfolding body rt Let_def
      by (simp add: exit_branch_def emit_def reanchor_def accumulate_def stop_row_def min_def)
  qed
qed

lemma confirmed_exit_emits:
  assumes n: "Suc n < length rows" and ms: "min_speed_kmh a = Some m"
    and c: "confirmed_exit d rows a n"
    and tr: "tracks d rows a n s" and body: "loop_body d rows a n s = Inr s'"
  shows "(stops_l s' \<noteq> stops_l s) =
     (let j = scan_offset (speeds_kmh s @
                [speed_sample (d (pos (rows ! anchor_at d rows a n)) (pos (rows ! Suc n)))
                   (diff_seconds (dtime (rows ! anchor_at d rows a n)) (dtime (rows ! Suc n)) / 60)]) m
      in j = 1 \<or> j < length (sum_lat s))"
proof -
  have k: "anchor_at d rows a n \<le> n" by (rule anchor_at_le)
  have "length (sum_lat s) = Suc n - anchor_at d rows a n"
    using tr n by (simp add: tracks_def length_visited)
  then have ne: "0 < length (sum_lat s)" using k by simp
  from confirmed_exit_step[OF n ms c tr] body ne show ?thesis
    by (auto simp: Let_def)
qed

lemma confirmed_exit_stops:
  assumes n: "Suc n < length rows" and ms: "min_speed_kmh a = Some m"
    and c: "confirmed_exit d rows a n"
    and tr: "tracks d rows a n s" and body: "loop_body d rows a n s = Inr s'"
  shows "stops_l s' = stops_l s @
     (let j = scan_offset (speeds_kmh s @
                [speed_sample (d (pos (rows ! anchor_at d rows a n)) (pos (rows ! Suc n)))
                   (diff_seconds (dtime (rows ! anchor_at d rows a n)) (dtime (rows ! Suc n)) / 60)]) m;
          kept = (if j = 1 then length (sum_lat s) else length (sum_lat s) - j)
      in if 0 < kept then [stop_row kept (other (rows ! n)) s] else [])"
  using confirmed_exit_step[OF n ms c tr] body by (simp add: Let_def)

subsection \<open>Runs with and without the flag\<close>

text \<open>The flag \<open>leaving_time\<close> only decides whether \<open>leaving_times\<close> grows: forgetting that
  list commutes with every block of the loop body.\<close>

lemma forget_fields [simp]:
  "t_0 (forget_leaving s) = t_0 s" "lat_0 (forget_leaving s) = lat_0 s"
  "lon_0 (forget_leaving s) = lon_0 s" "stops_l (forget_leaving s) = stops_l s"
  "speeds_kmh (forget_leaving s) = speeds_kmh s" "leaving_times (forget_leaving s) = []"
  by (simp_all add: forget_leaving_def)

lemma forget_reanchor: "reanchor p (forget_leaving s) = forget_leaving (reanchor p s)"
  by (simp add: forget_leaving_def reanchor_def)

lemma forget_accumulate: "accumulate p (forget_leaving s) = forget_leaving (accumulate p s)"
  by (simp add: forget_leaving_def accumulate_def)

lemma forget_speeds:
  "(forget_leaving s)\<lparr>speeds_kmh := x\<rparr> = forget_leaving (s\<lparr>speeds_kmh := x\<rparr>)"
  by (simp add: forget_leaving_def)

lemma forget_gap_check:
  "gap_check (a\<lparr>leaving_time := False\<rparr>) q p (forget_leaving s) =
     forget_leaving (gap_check (a\<lparr>leaving_time := b\<rparr>) q p s)"
  by (simp add: gap_check_def forget_reanchor)

lemma forget_estimate:
  "estimate_leaving ms t (forget_leaving s) =
     map_sum id (map_prod id forget_leaving) (estimate_leaving ms t s)"
  by (cases ms)
     (auto simp: estimate_leaving_def forget_leaving_def split: sum.splits)

lemma forget_emit:
  "emit False x est (forget_leaving s) = forget_leaving (emit b x est s)"
  by (simp add: emit_def forget_leaving_def Let_def)

lemma forget_exit_branch:
  "exit_branch (a\<lparr>leaving_time := False\<rparr>) Dt q p (forget_leaving s) =
     map_sum id forget_leaving (exit_branch (a\<lparr>leaving_time := b\<rparr>) Dt q p s)"
proof (cases "estimate_leaving (min_speed_kmh a) (dtime p) s")
  case (Inl e)
  then show ?thesis by (simp add: exit_branch_def forget_estimate forget_reanchor)
next
  case (Inr r)
  obtain est s' where "r = (est, s')" by (cases r)
  with Inr show ?thesis
    by (simp add: exit_branch_def forget_estimate forget_reanchor
          forget_emit[where b = b])
qed

lemma forget_radius_test:
  "radius_test d (a\<lparr>leaving_time := False\<rparr>) q p (forget_leaving s) =
     map_sum id forget_leaving (radius_test d (a\<lparr>leaving_time := b\<rparr>) q p s)"
  by (simp add: radius_test_def Let_def forget_speeds forget_exit_branch[where b = b])

lemma forget_loop_body:
  "loop_body d rows (a\<lparr>leaving_time := False\<rparr>) n (forget_leaving s) =
     map_sum id forget_leaving (loop_body d rows (a\<lparr>leaving_time := b\<rparr>) n s)"
  by (simp add: loop_body_def forget_gap_check[where b = b] forget_radius_test[where b = b]
        forget_accumulate split: sum.splits)

lemma forget_for_range:
  "for_range (loop_body d rows (a\<lparr>leaving_time := False\<rparr>)) ns (forget_leaving s) =
     map_sum id forget_leaving (for_range (loop_body d rows (a\<lparr>leaving_time := b\<rparr>)) ns s)"
proof (induction ns arbitrary: s)
  case Nil
  then show ?case by simp
next
  case (Cons n ns)
  then show ?case
    by (simp add: forget_loop_body[where b = b] split: sum.splits)
qed

lemma forget_init: "forget_leaving (init_vars r) = init_vars r"
  by (simp add: forget_leaving_def init_vars_def)

lemma forget_run_loop:
  "run_loop d rows (a\<lparr>leaving_time := False\<rparr>) n =
     map_sum id forget_leaving (run_loop d rows (a\<lparr>leaving_time := b\<rparr>) n)"
  using forget_for_range[where d = d and rows = rows and a = a and b = b and ns = "[0..<n]"
      and s = "init_vars (rows ! 0)"]
  by (simp add: run_loop_def py_index_def forget_init)

lemma stops_array_flag:
  "map_sum id fst (stops_array d rows (a\<lparr>leaving_time := b\<rparr>)) =
     map_sum id fst (stops_array d rows (a\<lparr>leaving_time := False\<rparr>))"
  by (simp add: stops_array_def forget_run_loop[where b = b] split: sum.splits)

subsection \<open>Evaluation of the concrete runs\<close>

lemmas run_defs =
  stops_array_def run_loop_def loop_body_def py_index_def gap_check_def radius_test_def
  exit_branch_def estimate_leaving_def emit_def reanchor_def accumulate_def speed_sample_def
  py_div_def diff_seconds_def grid_km_def median_def py_index_neg_def py_slice_to_neg_def
  init_vars_def Let_def upt_rec

lemmas input_defs = rows_stay_def rows_fast_def rows_gap_def rows_two_def args_default_def
  args_speed_def

subsection \<open>\<open>_stops_trajectory\<close> and \<open>stops\<close>\<close>

lemma stops_trajectory_flag:
  "map_sum id tdf_rows (stops_trajectory d t (a\<lparr>leaving_time := b\<rparr>)) =
     map_sum id fst (stops_array d (tdf_rows t) (a\<lparr>leaving_time := False\<rparr>))"
  using stops_array_flag[where d = d and rows = "tdf_rows t" and a = a and b = b]
  by (cases "stops_array d (tdf_rows t) (a\<lparr>leaving_time := b\<rparr>)")
     (auto simp: stops_trajectory_def Let_def split: prod.splits)

lemma stops_trajectory_column:
  "map_sum id (\<lambda>out. leaving_datetime out = None) (stops_trajectory d t a) =
     map_sum id (\<lambda>out. \<not> leaving_time a) (stops_trajectory d t a)"
  by (cases "stops_array d (tdf_rows t) a")
     (auto simp: stops_trajectory_def Let_def split: prod.splits)


section \<open>Departure-time estimation\<close>

text \<open>
  Claim C1, as stated: with \<open>min_speed_kmh\<close> set, the scan takes the most recent sample below
  the threshold anywhere in the speed sequence; found at backward offset \<open>j\<close>, the departure
  time is the timestamp \<open>j\<close> from the end and the last \<open>j\<close> positions are trimmed; with no such
  sample the departure time is the exit point's timestamp and nothing is trimmed. That rule is
  \<open>claimed_leaving\<close>. The code differs in three places. On \<open>rows_fast\<close> no sample is below
  the threshold, yet the stop leaves at second 600, the timestamp two from the end, and only
  the anchor's position is kept, where the rule gives second 2400 and keeps all three
  positions. On \<open>acc_slow\<close> the exit point's own sample (offset \<open>1\<close>) is below the threshold:
  the code takes the exit point's timestamp and trims nothing, the rule takes the timestamp
  one from the end and trims one position. On \<open>acc_oldest\<close> only the oldest sample is below
  the threshold: the code never reads it.
\<close>

theorem departure_scan_counterexample:
  "estimate_leaving (Some 1) 2400 acc_fast \<noteq> Inr (claimed_leaving 1 2400 acc_fast) \<and>
   estimate_leaving (Some 20) 36000 acc_slow \<noteq> Inr (claimed_leaving 20 36000 acc_slow) \<and>
   estimate_leaving (Some 1) 2400 acc_oldest \<noteq> Inr (claimed_leaving 1 2400 acc_oldest) \<and>
   stops_array grid_km rows_fast args_speed =
     Inr ([\<lparr>lat = 0, lng = 0, dtime = 0, other = [''c'']\<rparr>], [600]) \<and>
   estimate_leaving (Some 1) 2400 acc_fast = Inr (600, acc_fast\<lparr>sum_lat := [0], sum_lon := [0]\<rparr>) \<and>
   claimed_leaving 1 2400 acc_fast = (2400, acc_fast) \<and>
   estimate_leaving (Some 20) 36000 acc_slow = Inr (36000, acc_slow) \<and>
   claimed_leaving 20 36000 acc_slow = (600, acc_slow\<lparr>sum_lat := [0], sum_lon := [0]\<rparr>) \<and>
   estimate_leaving (Some 1) 2400 acc_oldest = Inr (2400, acc_oldest) \<and>
   claimed_leaving 1 2400 acc_oldest = (0, acc_oldest\<lparr>sum_lat := [], sum_lon := []\<rparr>)"
proof -
  have a: "stops_array grid_km rows_fast args_speed =
     Inr ([\<lparr>lat = 0, lng = 0, dtime = 0, other = [''c'']\<rparr>], [600])"
    by (simp add: run_defs input_defs)
  have b: "estimate_leaving (Some 1) 2400 acc_fast = Inr (600, acc_fast\<lparr>sum_lat := [0], sum_lon := [0]\<rparr>)"
    "estimate_leaving (Some 20) 36000 acc_slow = Inr (36000, acc_slow)"
    "estimate_leaving (Some 1) 2400 acc_oldest = Inr (2400, acc_oldest)"
    by (simp_all add: run_defs acc_fast_def acc_slow_def acc_oldest_def)
  have c: "claimed_leaving 1 2400 acc_fast = (2400, acc_fast)"
    "claimed_leaving 20 36000 acc_slow = (600, acc_slow\<lparr>sum_lat := [0], sum_lon := [0]\<rparr>)"
    "claimed_leaving 1 2400 acc_oldest = (0, acc_oldest\<lparr>sum_lat := [], sum_lon := []\<rparr>)"
    by (simp_all add: claimed_leaving_def acc_fast_def acc_slow_def acc_oldest_def upt_rec)
  have d: "estimate_leaving (Some 1) 2400 acc_fast \<noteq> Inr (claimed_leaving 1 2400 acc_fast)"
    "estimate_leaving (Some 20) 36000 acc_slow \<noteq> Inr (claimed_leaving 20 36000 acc_slow)"
    "estimate_leaving (Some 1) 2400 acc_oldest \<noteq> Inr (claimed_leaving 1 2400 acc_oldest)"
    unfolding b c by simp_all
  from a b c d show ?thesis by (intro conjI)
qed

text \<open>
  Claim C1, amended: when \<open>min_speed_kmh\<close> is set and iteration \<open>n\<close> confirms a stop, lines
  150 to 153 scan the backward offsets \<open>1, \<dots>, k - 1\<close> of the \<open>k\<close> speed samples, the exit
  point's sample included as offset \<open>1\<close>; the oldest sample, offset \<open>k\<close>, is never read.
  \<open>j\<close> is the first of these offsets whose sample is strictly below the threshold and, when
  there is none, the last offset visited, \<open>k - 1\<close>, or \<open>1\<close> when \<open>k < 2\<close>. If \<open>j = 1\<close> the
  departure time is the exit point's timestamp and nothing is trimmed; otherwise the departure
  time is the timestamp \<open>j\<close> positions from the end of the time sequence and the last \<open>j\<close>
  latitudes and longitudes are trimmed before the medians are taken. The record and the
  estimate are appended when a position is left.
\<close>

theorem departure_rule:
  assumes "Suc n < length rows" "min_speed_kmh a = Some m" "confirmed_exit d rows a n"
  shows "\<exists>s s'. run_loop d rows a n = Inr s \<and> run_loop d rows a (Suc n) = Inr s' \<and>
     (let speeds = speeds_kmh s @
                [speed_sample (d (pos (rows ! anchor_at d rows a n)) (pos (rows ! Suc n)))
                   (diff_seconds (dtime (rows ! anchor_at d rows a n)) (dtime (rows ! Suc n)) / 60)];
          j = scan_offset speeds m;
          kept = (if j = 1 then length (sum_lat s) else length (sum_lat s) - j);
          est = (if j = 1 then dtime (rows ! Suc n) else sum_t s ! (length (sum_t s) - j))
      in scan_back [1..<length speeds] speeds m 1 = Inr j \<and>
         stops_l s' = stops_l s @
           (if 0 < kept then [stop_row kept (other (rows ! n)) s] else []) \<and>
         leaving_times s' = leaving_times s @
           (if 0 < kept \<and> leaving_time a then [est] else []))"
proof -
  from run_loop_step[OF assms(1), of d a] obtain s s' where
    s: "run_loop d rows a n = Inr s" "run_loop d rows a (Suc n) = Inr s'"
    "loop_body d rows a n s = Inr s'" "tracks d rows a n s" by blast
  from confirmed_exit_step[OF assms s(4)] s(3)
  have "s' = (let speeds = speeds_kmh s @
                [speed_sample (d (pos (rows ! anchor_at d rows a n)) (pos (rows ! Suc n)))
                   (diff_seconds (dtime (rows ! anchor_at d rows a n)) (dtime (rows ! Suc n)) / 60)];
              j = scan_offset speeds m;
              kept = (if j = 1 then length (sum_lat s) else length (sum_lat s) - j);
              est = (if j = 1 then dtime (rows ! Suc n) else sum_t s ! (length (sum_t s) - j))
          in accumulate (rows ! Suc n) (reanchor (rows ! Suc n)
               (s\<lparr>stops_l := stops_l s @
                      (if 0 < kept then [stop_row kept (other (rows ! n)) s] else []),
                   leaving_times := leaving_times s @
                      (if 0 < kept \<and> leaving_time a then [est] else [])\<rparr>)))"
    by simp
  then have "let speeds = speeds_kmh s @
                [speed_sample (d (pos (rows ! anchor_at d rows a n)) (pos (rows ! Suc n)))
                   (diff_seconds (dtime (rows ! anchor_at d rows a n)) (dtime (rows ! Suc n)) / 60)];
          j = scan_offset speeds m;
          kept = (if j = 1 then length (sum_lat s) else length (sum_lat s) - j);
          est = (if j = 1 then dtime (rows ! Suc n) else sum_t s ! (length (sum_t s) - j))
      in scan_back [1..<length speeds] speeds m 1 = Inr j \<and>
         stops_l s' = stops_l s @
           (if 0 < kept then [stop_row kept (other (rows ! n)) s] else []) \<and>
         leaving_times s' = leaving_times s @
           (if 0 < kept \<and> leaving_time a then [est] else [])"
    unfolding Let_def by (simp only: scan_back_offset reanchor_stops accumulate_stops) simp
  with s(1,2) show ?thesis by (intro exI[of _ s] exI[of _ s'] conjI)
qed

theorem departure_rule_witness:
  "Suc 2 < length rows_fast \<and> min_speed_kmh args_speed = Some 1 \<and>
   confirmed_exit grid_km rows_fast args_speed 2 \<and>
   scan_offset [333 / 100, 111 / 100, 333 / 2] 1 = 2 \<and>
   (\<exists>s s'. run_loop grid_km rows_fast args_speed 2 = Inr s \<and>
      run_loop grid_km rows_fast args_speed (Suc 2) = Inr s' \<and>
      stops_l s' = stops_l s @ [stop_row 1 (other (rows_fast ! 2)) s] \<and>
      leaving_times s' = leaving_times s @ [600])"
proof -
  have anc: "anchor_at grid_km rows_fast args_speed 2 = 0"
    by (simp add: eval_nat_numeral gap_at_def input_defs diff_seconds_def grid_km_def pos_def)
  have h: "Suc 2 < length rows_fast" "min_speed_kmh args_speed = Some 1"
    "confirmed_exit grid_km rows_fast args_speed 2"
    by (simp_all add: confirmed_exit_def gap_at_def anc)
       (simp_all add: eval_nat_numeral input_defs diff_seconds_def grid_km_def pos_def)
  have j: "scan_offset [333 / 100, 111 / 100, 333 / 2] (1::real) = 2"
    by (simp add: scan_offset_def upt_rec)
  have run: "run_loop grid_km rows_fast args_speed 2 = Inr (acc_fast\<lparr>speeds_kmh := [333 / 100, 111 / 100]\<rparr>)"
    by (simp add: run_defs input_defs acc_fast_def)
  from departure_rule[where d = grid_km, OF h] obtain s s' where
    s: "run_loop grid_km rows_fast args_speed 2 = Inr s"
    "run_loop grid_km rows_fast args_speed (Suc 2) = Inr s'"
    and r: "let speeds = speeds_kmh s @
                [speed_sample (grid_km (pos (rows_fast ! anchor_at grid_km rows_fast args_speed 2))
                                 (pos (rows_fast ! Suc 2)))
                   (diff_seconds (dtime (rows_fast ! anchor_at grid_km rows_fast args_speed 2))
                      (dtime (rows_fast ! Suc 2)) / 60)];
          j = scan_offset speeds 1;
          kept = (if j = 1 then length (sum_lat s) else length (sum_lat s) - j);
          est = (if j = 1 then dtime (rows_fast ! Suc 2) else sum_t s ! (length (sum_t s) - j))
      in scan_back [1..<length speeds] speeds 1 1 = Inr j \<and>
         stops_l s' = stops_l s @
           (if 0 < kept then [stop_row kept (other (rows_fast ! 2)) s] else []) \<and>
         leaving_times s' = leaving_times s @
           (if 0 < kept \<and> leaving_time args_speed then [est] else [])"
    by (elim exE conjE)
  from s(1) run have s_eq: "s = acc_fast\<lparr>speeds_kmh := [333 / 100, 111 / 100]\<rparr>" by simp
  have sample: "speed_sample (grid_km (pos (rows_fast ! 0)) (pos (rows_fast ! Suc 2)))
                   (diff_seconds (dtime (rows_fast ! 0)) (dtime (rows_fast ! Suc 2)) / 60) = 333 / 2"
    by (simp add: eval_nat_numeral rows_fast_def speed_sample_def py_div_def grid_km_def pos_def
          diff_seconds_def)
  from r have "stops_l s' = stops_l s @ [stop_row 1 (other (rows_fast ! 2)) s] \<and>
      leaving_times s' = leaving_times s @ [600]"
    unfolding Let_def anc sample s_eq
    by (simp add: acc_fast_def j args_speed_def)
  with s have "\<exists>s s'. run_loop grid_km rows_fast args_speed 2 = Inr s \<and>
      run_loop grid_km rows_fast args_speed (Suc 2) = Inr s' \<and>
      stops_l s' = stops_l s @ [stop_row 1 (other (rows_fast ! 2)) s] \<and>
      leaving_times s' = leaving_times s @ [600]"
    by blast
  with h j show ?thesis by (intro conjI)
qed

section \<open>Data gaps\<close>

text \<open>
  Claim C2, as stated: a point that follows a gap re-anchors the accumulator and the rest of
  the iteration is skipped, so that no speed sample is appended for it. The gap branch has no
  \<open>continue\<close>: in \<open>rows_gap\<close> the second point follows a gap of 2000 minutes, and after its
  iteration the speed sequence holds the sample \<open>0\<close>.
\<close>

theorem gap_iteration_counterexample:
  "gap_at rows_gap args_speed 0 \<and>
   run_loop grid_km rows_gap args_speed 1 =
     Inr \<lparr>stops_l = [], leaving_times = [], lat_0 = 0, lon_0 = 0, t_0 = 120000,
          sum_lat = [0], sum_lon = [0], sum_t = [120000], speeds_kmh = [0], count = 1\<rparr>"
  by (simp add: run_defs input_defs gap_at_def)

text \<open>
  Claim C2, amended: for a point \<open>P\<close> more than \<open>no_data_for_minutes\<close> minutes after its
  predecessor, the iteration discards the accumulator, emits nothing and re-anchors at \<open>P\<close>;
  it then runs the speed computation and the radius test against the new anchor, that is
  \<open>P\<close> against itself: the elapsed time is zero, the sample \<open>0\<close> is appended, and the
  sample stays unless the distance of \<open>P\<close> to itself exceeds the stop radius. \<open>P\<close> is then
  appended to the emptied position and time sequences. Whatever the variables were before,
  the iteration leaves both output lists as they were.
\<close>

theorem gap_iteration:
  assumes "Suc n < length rows" "gap_at rows a n"
  shows "loop_body d rows a n s =
     Inr (s\<lparr>count := 1, lat_0 := lat (rows ! Suc n), lon_0 := lng (rows ! Suc n),
            t_0 := dtime (rows ! Suc n), sum_lat := [lat (rows ! Suc n)],
            sum_lon := [lng (rows ! Suc n)], sum_t := [dtime (rows ! Suc n)],
            speeds_kmh := (if d (pos (rows ! Suc n)) (pos (rows ! Suc n)) > stop_radius a
                           then [] else [0])\<rparr>)"
  using assms
  by (cases "min_speed_kmh a")
     (simp_all add: loop_body_def py_index_def gap_check_def gap_at_def radius_test_def
        exit_branch_def estimate_leaving_def emit_def reanchor_def accumulate_def
        speed_sample_def py_div_def diff_seconds_def pos_def Let_def)

theorem gap_iteration_witness:
  "Suc 0 < length rows_gap \<and> gap_at rows_gap args_speed 0 \<and>
   loop_body grid_km rows_gap args_speed 0 (init_vars (rows_gap ! 0)) =
     Inr \<lparr>stops_l = [], leaving_times = [], lat_0 = 0, lon_0 = 0, t_0 = 120000,
          sum_lat = [0], sum_lon = [0], sum_t = [120000], speeds_kmh = [0], count = 1\<rparr>"
proof -
  have h: "Suc 0 < length rows_gap" "gap_at rows_gap args_speed 0"
    by (simp_all add: input_defs gap_at_def diff_seconds_def)
  from gap_iteration[OF h, of grid_km "init_vars (rows_gap ! 0)"] h show ?thesis
    by (simp add: input_defs init_vars_def grid_km_def pos_def)
qed

section \<open>When a stop is emitted\<close>

text \<open>
  Claim C3, as stated: a stop record is emitted if and only if a run of points within the
  radius of a common anchor, longer than \<open>minutes_for_a_stop\<close>, is ended by a point that
  leaves the radius. In \<open>rows_gap\<close> the last point ends such a run (the anchor was set after
  the gap, the two following points stay within the radius for thirty minutes, the exit comes
  after forty), and no record is emitted: every sample read by the scan is at or above the
  threshold, the scan ends at offset \<open>3\<close>, all three positions are trimmed, and the guard
  \<open>len(sum_lat) > 0\<close> drops the stop. In \<open>rows_two\<close> a record is emitted for a run that holds
  the anchor alone, so that the run itself spans no time: the time that is compared with
  \<open>minutes_for_a_stop\<close> runs from the anchor to the exit point, not to the last point of the
  run.
\<close>

theorem stop_emitted_counterexample:
  "confirmed_exit grid_km rows_gap args_speed 3 \<and>
   stops_array grid_km rows_gap args_speed = Inr ([], []) \<and>
   stops_array grid_km rows_two args_default =
     Inr ([\<lparr>lat = 0, lng = 0, dtime = 0, other = [''a'']\<rparr>], [1800])"
proof -
  have "anchor_at grid_km rows_gap args_speed 3 = 1"
    by (simp add: eval_nat_numeral gap_at_def input_defs diff_seconds_def grid_km_def pos_def)
  then have a: "confirmed_exit grid_km rows_gap args_speed 3"
    by (simp add: confirmed_exit_def gap_at_def)
       (simp add: eval_nat_numeral input_defs diff_seconds_def grid_km_def pos_def)
  have b: "stops_array grid_km rows_gap args_speed = Inr ([], [])"
    by (simp add: run_defs input_defs)
  have c: "stops_array grid_km rows_two args_default =
     Inr ([\<lparr>lat = 0, lng = 0, dtime = 0, other = [''a'']\<rparr>], [1800])"
    by (simp add: run_defs input_defs)
  from a b c show ?thesis by (intro conjI)
qed

text \<open>
  Claim C3, amended: in every iteration at most one stop record is appended. One is appended
  only if the iteration is a confirmed exit: no gap before the point, the point farther than
  \<open>stop_radius\<close> from the anchor, and more than \<open>minutes_for_a_stop\<close> minutes from the
  anchor's timestamp to the point's. A confirmed exit does append a record when
  \<open>min_speed_kmh\<close> is unset or the anchor was not set by the gap branch; with
  \<open>min_speed_kmh\<close> set it appends one exactly when the trimming leaves a position, that is
  when the scan ends at offset \<open>1\<close> or at an offset below the number of visited positions;
  otherwise the guard \<open>len(sum_lat) > 0\<close> drops the stop. The points after the anchor up to
  the current one are all within the radius of the anchor and no gap separates them. The
  function returns the lists as the last iteration left them, and an input without a confirmed
  exit gives no stop at all: an accumulator still open at the end of the input emits nothing.
\<close>

theorem stop_emitted_iff:
  assumes "Suc n < length rows"
  shows "\<exists>s s' sf. run_loop d rows a n = Inr s \<and> run_loop d rows a (Suc n) = Inr s' \<and>
     run_loop d rows a (length rows - 1) = Inr sf \<and>
     stops_array d rows a = Inr (stops_l sf, leaving_times sf) \<and>
     (stops_l s' = stops_l s \<or> (\<exists>r. stops_l s' = stops_l s @ [r])) \<and>
     (stops_l s' \<noteq> stops_l s \<longrightarrow> confirmed_exit d rows a n) \<and>
     (confirmed_exit d rows a n \<and> (min_speed_kmh a = None \<or> \<not> gap_anchored d rows a n)
        \<longrightarrow> stops_l s' \<noteq> stops_l s) \<and>
     (\<forall>m. confirmed_exit d rows a n \<and> min_speed_kmh a = Some m \<longrightarrow>
        (stops_l s' \<noteq> stops_l s) =
        (let j = scan_offset (speeds_kmh s @
                [speed_sample (d (pos (rows ! anchor_at d rows a n)) (pos (rows ! Suc n)))
                   (diff_seconds (dtime (rows ! anchor_at d rows a n)) (dtime (rows ! Suc n)) / 60)]) m
         in j = 1 \<or> j < length (sum_lat s))) \<and>
     (\<forall>j. anchor_at d rows a n < j \<and> j \<le> n \<longrightarrow>
        \<not> stop_radius a < d (pos (rows ! anchor_at d rows a n)) (pos (rows ! j)) \<and>
        \<not> gap_at rows a (j - 1)) \<and>
     ((\<forall>i. Suc i < length rows \<longrightarrow> \<not> confirmed_exit d rows a i) \<longrightarrow>
        stops_array d rows a = Inr ([], []))"
proof -
  from run_loop_step[OF assms, of d a] obtain s s' where
    s: "run_loop d rows a n = Inr s" "run_loop d rows a (Suc n) = Inr s'"
    "tracks d rows a n s" "outcome d rows a n s s'" "loop_body d rows a n s = Inr s'" by blast
  from assms have ne: "rows \<noteq> []" and n: "n < length rows" by auto
  have open_end: "(\<forall>i. Suc i < length rows \<longrightarrow> \<not> confirmed_exit d rows a i) \<longrightarrow>
        stops_array d rows a = Inr ([], [])"
    using no_exit_no_stop[OF ne] by blast
  from stops_array_Inr[OF ne, of d a] obtain sf where
    sf: "run_loop d rows a (length rows - 1) = Inr sf"
    "stops_array d rows a = Inr (stops_l sf, leaving_times sf)" by blast
  have len: "0 < length (sum_lat s)"
    using s(3) last_visited[OF n, of d a] by (simp add: tracks_def)
  have grow: "stops_l s' = stops_l s \<or> (\<exists>r. stops_l s' = stops_l s @ [r])"
  proof (cases "confirmed_exit d rows a n")
    case True
    from outcome_confirmedE[OF s(4) True] obtain k where
      "stops_l s' = stops_l s @ (if 0 < k then [stop_row k (other (rows ! n)) s] else [])"
      by metis
    then show ?thesis by (cases "0 < k") simp_all
  next
    case False
    with s(4) show ?thesis by (simp add: outcome_unconfirmed)
  qed
  have only_if: "stops_l s' \<noteq> stops_l s \<longrightarrow> confirmed_exit d rows a n"
    using outcome_unconfirmed(1)[OF s(4)] by blast
  have "if": "confirmed_exit d rows a n \<and> (min_speed_kmh a = None \<or> \<not> gap_anchored d rows a n)
        \<longrightarrow> stops_l s' \<noteq> stops_l s"
  proof (intro impI, elim conjE)
    assume c: "confirmed_exit d rows a n"
      and h: "min_speed_kmh a = None \<or> \<not> gap_anchored d rows a n"
    from outcome_confirmedE[OF s(4) c] obtain est k where k:
      "stops_l s' = stops_l s @ (if 0 < k then [stop_row k (other (rows ! n)) s] else [])"
      "min_speed_kmh a = None \<longrightarrow> est = dtime (rows ! Suc n) \<and> k = length (sum_lat s)"
      "\<not> gap_anchored d rows a n \<longrightarrow> 0 < k"
      by metis
    from h k(2,3) len have "0 < k" by auto
    with k(1) show "stops_l s' \<noteq> stops_l s" by simp
  qed
  have exact: "\<forall>m. confirmed_exit d rows a n \<and> min_speed_kmh a = Some m \<longrightarrow>
        (stops_l s' \<noteq> stops_l s) =
        (let j = scan_offset (speeds_kmh s @
                [speed_sample (d (pos (rows ! anchor_at d rows a n)) (pos (rows ! Suc n)))
                   (diff_seconds (dtime (rows ! anchor_at d rows a n)) (dtime (rows ! Suc n)) / 60)]) m
         in j = 1 \<or> j < length (sum_lat s))"
    using confirmed_exit_emits[OF assms _ _ s(3) s(5)] by blast
  have run: "\<forall>j. anchor_at d rows a n < j \<and> j \<le> n \<longrightarrow>
        \<not> stop_radius a < d (pos (rows ! anchor_at d rows a n)) (pos (rows ! j)) \<and>
        \<not> gap_at rows a (j - 1)"
    using run_within[of d rows a n] by blast
  from s(1,2) sf grow only_if "if" exact run open_end show ?thesis
    by (intro exI[of _ s] exI[of _ s'] exI[of _ sf] conjI)
qed

theorem stop_emitted_iff_witness:
  "Suc 3 < length rows_stay \<and>
   (\<exists>s s' sf. run_loop grid_km rows_stay args_default 3 = Inr s \<and>
     run_loop grid_km rows_stay args_default (Suc 3) = Inr s' \<and>
     run_loop grid_km rows_stay args_default (length rows_stay - 1) = Inr sf \<and>
     stops_array grid_km rows_stay args_default = Inr (stops_l sf, leaving_times sf) \<and>
     (stops_l s' = stops_l s \<or> (\<exists>r. stops_l s' = stops_l s @ [r])) \<and>
     (stops_l s' \<noteq> stops_l s \<longrightarrow> confirmed_exit grid_km rows_stay args_default 3) \<and>
     (confirmed_exit grid_km rows_stay args_default 3 \<and>
        (min_speed_kmh args_default = None \<or> \<not> gap_anchored grid_km rows_stay args_default 3)
        \<longrightarrow> stops_l s' \<noteq> stops_l s) \<and>
     (\<forall>m. confirmed_exit grid_km rows_stay args_default 3 \<and> min_speed_kmh args_default = Some m \<longrightarrow>
        (stops_l s' \<noteq> stops_l s) =
        (let j = scan_offset (speeds_kmh s @
                [speed_sample (grid_km (pos (rows_stay ! anchor_at grid_km rows_stay args_default 3))
                                 (pos (rows_stay ! Suc 3)))
                   (diff_seconds (dtime (rows_stay ! anchor_at grid_km rows_stay args_default 3))
                      (dtime (rows_stay ! Suc 3)) / 60)]) m
         in j = 1 \<or> j < length (sum_lat s))) \<and>
     (\<forall>j. anchor_at grid_km rows_stay args_default 3 < j \<and> j \<le> 3 \<longrightarrow>
        \<not> stop_radius args_default
            < grid_km (pos (rows_stay ! anchor_at grid_km rows_stay args_default 3))
                (pos (rows_stay ! j)) \<and>
        \<not> gap_at rows_stay args_default (j - 1)) \<and>
     ((\<forall>i. Suc i < length rows_stay \<longrightarrow> \<not> confirmed_exit grid_km rows_stay args_default i) \<longrightarrow>
        stops_array grid_km rows_stay args_default = Inr ([], []))) \<and>
   stops_array grid_km rows_stay args_default =
     Inr ([\<lparr>lat = 0, lng = 0, dtime = 0, other = [''d'']\<rparr>], [2100]) \<and>
   stops_array grid_km (butlast rows_stay) args_default = Inr ([], [])"
proof -
  have h: "Suc 3 < length rows_stay" by (simp add: rows_stay_def)
  have closed: "stops_array grid_km rows_stay args_default =
     Inr ([\<lparr>lat = 0, lng = 0, dtime = 0, other = [''d'']\<rparr>], [2100])"
    by (simp add: run_defs input_defs)
  have open_end: "stops_array grid_km (butlast rows_stay) args_default = Inr ([], [])"
    by (simp add: run_defs input_defs)
  from stop_emitted_iff[OF h, of grid_km args_default] h closed open_end show ?thesis
    by (intro conjI)
qed

section \<open>The fields of a stop record\<close>

text \<open>
  Claim C4: before iteration \<open>n\<close> the accumulator holds the latitudes and longitudes of the
  rows from the anchor to row \<open>n\<close>, the last of which is the predecessor of the point under
  test. A record appended by the iteration has the median of the first \<open>k\<close> of these
  latitudes and the median of the first \<open>k\<close> of these longitudes, where \<open>k > 0\<close> is the
  number of visited positions that the trimming leaves: all of them when \<open>min_speed_kmh\<close> is
  unset or the scan ends at offset \<open>1\<close>, and all but the last \<open>j\<close> when it ends at offset
  \<open>j\<close>. Its timestamp is the anchor's, and its extra columns are those of row \<open>n\<close>, not
  those of the exit point, row \<open>n + 1\<close>.
\<close>

theorem stop_record_fields:
  assumes "Suc n < length rows"
  shows "\<exists>s s'. run_loop d rows a n = Inr s \<and> run_loop d rows a (Suc n) = Inr s' \<and>
     sum_lat s = map lat (visited d rows a n) \<and>
     sum_lon s = map lng (visited d rows a n) \<and>
     t_0 s = dtime (rows ! anchor_at d rows a n) \<and>
     last (visited d rows a n) = rows ! n \<and>
     (stops_l s' = stops_l s \<or>
      (\<exists>k. 0 < k \<and> k \<le> length (sum_lat s) \<and>
           k = (case min_speed_kmh a of
                  None \<Rightarrow> length (sum_lat s)
                | Some m \<Rightarrow>
                    (let j = scan_offset (speeds_kmh s @
                               [speed_sample
                                  (d (pos (rows ! anchor_at d rows a n)) (pos (rows ! Suc n)))
                                  (diff_seconds (dtime (rows ! anchor_at d rows a n))
                                     (dtime (rows ! Suc n)) / 60)]) m
                     in if j = 1 then length (sum_lat s) else length (sum_lat s) - j)) \<and>
           stops_l s' = stops_l s @
             [\<lparr>lat = median (take k (sum_lat s)), lng = median (take k (sum_lon s)),
               dtime = t_0 s, other = other (rows ! n)\<rparr>]))"
proof -
  from run_loop_step[OF assms, of d a] obtain s s' where
    s: "run_loop d rows a n = Inr s" "run_loop d rows a (Suc n) = Inr s'"
    "tracks d rows a n s" "outcome d rows a n s s'" "loop_body d rows a n s = Inr s'" by blast
  from assms have n: "n < length rows" by simp
  have tr: "sum_lat s = map lat (visited d rows a n)" "sum_lon s = map lng (visited d rows a n)"
    "t_0 s = dtime (rows ! anchor_at d rows a n)"
    using s(3) by (simp_all add: tracks_def)
  have lst: "last (visited d rows a n) = rows ! n" using last_visited[OF n] by simp
  let ?sample = "speed_sample (d (pos (rows ! anchor_at d rows a n)) (pos (rows ! Suc n)))
                   (diff_seconds (dtime (rows ! anchor_at d rows a n)) (dtime (rows ! Suc n)) / 60)"
  let ?K = "case min_speed_kmh a of
                  None \<Rightarrow> length (sum_lat s)
                | Some m \<Rightarrow>
                    (let j = scan_offset (speeds_kmh s @ [?sample]) m
                     in if j = 1 then length (sum_lat s) else length (sum_lat s) - j)"
  have "stops_l s' = stops_l s \<or>
      (\<exists>k. 0 < k \<and> k \<le> length (sum_lat s) \<and> k = ?K \<and>
           stops_l s' = stops_l s @
             [\<lparr>lat = median (take k (sum_lat s)), lng = median (take k (sum_lon s)),
               dtime = t_0 s, other = other (rows ! n)\<rparr>])"
  proof (cases "confirmed_exit d rows a n")
    case False
    with s(4) show ?thesis by (simp add: outcome_unconfirmed)
  next
    case True
    have *: "stops_l s' = stops_l s @ (if 0 < ?K then [stop_row ?K (other (rows ! n)) s] else [])"
      and le: "?K \<le> length (sum_lat s)"
    proof -
      show "stops_l s' = stops_l s @ (if 0 < ?K then [stop_row ?K (other (rows ! n)) s] else [])"
      proof (cases "min_speed_kmh a")
        case None
        from outcome_confirmedE[OF s(4) True] obtain est k where k:
          "stops_l s' = stops_l s @ (if 0 < k then [stop_row k (other (rows ! n)) s] else [])"
          "min_speed_kmh a = None \<longrightarrow> est = dtime (rows ! Suc n) \<and> k = length (sum_lat s)"
          by metis
        with None show ?thesis by simp
      next
        case (Some m)
        from confirmed_exit_stops[OF assms Some True s(3) s(5)] Some show ?thesis
          by (simp add: Let_def)
      qed
      show "?K \<le> length (sum_lat s)"
        by (cases "min_speed_kmh a") (simp_all add: Let_def)
    qed
    show ?thesis
    proof (cases "0 < ?K")
      case False
      with * show ?thesis by simp
    next
      case pos: True
      have "stops_l s' = stops_l s @
             [\<lparr>lat = median (take ?K (sum_lat s)), lng = median (take ?K (sum_lon s)),
               dtime = t_0 s, other = other (rows ! n)\<rparr>]"
        using * pos by (simp add: stop_row_def)
      with pos le show ?thesis by (intro disjI2 exI[of _ ?K] conjI) simp_all
    qed
  qed
  with s(1,2) tr lst show ?thesis
    by (intro exI[of _ s] exI[of _ s'] conjI)
qed

theorem stop_record_fields_witness:
  "Suc 3 < length rows_stay \<and>
   (\<exists>s s'. run_loop grid_km rows_stay args_default 3 = Inr s \<and>
     run_loop grid_km rows_stay args_default (Suc 3) = Inr s' \<and>
     sum_lat s = map lat (visited grid_km rows_stay args_default 3) \<and>
     sum_lon s = map lng (visited grid_km rows_stay args_default 3) \<and>
     t_0 s = dtime (rows_stay ! anchor_at grid_km rows_stay args_default 3) \<and>
     last (visited grid_km rows_stay args_default 3) = rows_stay ! 3 \<and>
     (stops_l s' = stops_l s \<or>
      (\<exists>k. 0 < k \<and> k \<le> length (sum_lat s) \<and>
           k = (case min_speed_kmh args_default of
                  None \<Rightarrow> length (sum_lat s)
                | Some m \<Rightarrow>
                    (let j = scan_offset (speeds_kmh s @
                               [speed_sample
                                  (grid_km (pos (rows_stay ! anchor_at grid_km rows_stay args_default 3))
                                     (pos (rows_stay ! Suc 3)))
                                  (diff_seconds
                                     (dtime (rows_stay ! anchor_at grid_km rows_stay args_default 3))
                                     (dtime (rows_stay ! Suc 3)) / 60)]) m
                     in if j = 1 then length (sum_lat s) else length (sum_lat s) - j)) \<and>
           stops_l s' = stops_l s @
             [\<lparr>lat = median (take k (sum_lat s)), lng = median (take k (sum_lon s)),
               dtime = t_0 s, other = other (rows_stay ! 3)\<rparr>])))"
proof -
  have h: "Suc 3 < length rows_stay" by (simp add: rows_stay_def)
  from stop_record_fields[OF h, of grid_km args_default] h show ?thesis by (intro conjI)
qed

section \<open>The accumulator's lengths\<close>

text \<open>
  Claim C5, as stated: after every iteration the speed sequence is one element shorter than
  the timestamp sequence, also after a gap. In \<open>rows_gap\<close>, after the iteration of the gap
  and one more, both sequences have two elements.
\<close>

theorem accumulator_lengths_counterexample:
  "run_loop grid_km rows_gap args_speed 2 =
     Inr \<lparr>stops_l = [], leaving_times = [], lat_0 = 0, lon_0 = 0, t_0 = 120000,
          sum_lat = [0, 1 / 200], sum_lon = [0, 0], sum_t = [120000, 120600],
          speeds_kmh = [0, 333 / 100], count = 2\<rparr>"
  by (simp add: run_defs input_defs)

text \<open>
  Claim C5, amended: after every iteration the latitude, longitude and timestamp sequences
  have the same, positive length. The speed sequence is one element shorter than the timestamp
  sequence, except while the anchor is one set by the gap branch: that iteration goes on to
  append a sample for the new anchor, and until the next radius exit the speed sequence is as
  long as the timestamp sequence. Without a gap in the input the exception never arises.
\<close>

theorem accumulator_lengths:
  assumes "n < length rows"
  shows "\<exists>s. run_loop d rows a n = Inr s \<and>
           length (sum_lat s) = length (sum_t s) \<and>
           length (sum_lon s) = length (sum_t s) \<and>
           0 < length (sum_t s) \<and>
           length (speeds_kmh s) + (if gap_anchored d rows a n then 0 else 1) = length (sum_t s) \<and>
           (gap_anchored d rows a n \<longrightarrow> (\<exists>i<n. gap_at rows a i))"
proof -
  from run_loop_tracks[OF assms] obtain s where
    s: "run_loop d rows a n = Inr s" "tracks d rows a n s" by blast
  have k: "anchor_at d rows a n \<le> n" by (rule anchor_at_le)
  have len: "length (visited d rows a n) = Suc n - anchor_at d rows a n"
    using assms by (rule length_visited)
  from s(2) have "sum_lat s = map lat (visited d rows a n)" "sum_lon s = map lng (visited d rows a n)"
    "sum_t s = map dtime (visited d rows a n)"
    "length (speeds_kmh s) = n - anchor_at d rows a n + (if gap_anchored d rows a n then 1 else 0)"
    by (simp_all add: tracks_def)
  then have "length (sum_lat s) = length (sum_t s)" "length (sum_lon s) = length (sum_t s)"
    "0 < length (sum_t s)"
    "length (speeds_kmh s) + (if gap_anchored d rows a n then 0 else 1) = length (sum_t s)"
    using len k by simp_all
  moreover have "gap_anchored d rows a n \<longrightarrow> (\<exists>i<n. gap_at rows a i)"
    using gap_anchored_gap[of d rows a n] by blast
  ultimately show ?thesis using s(1)
    by (intro exI[of _ s] conjI)
qed

theorem accumulator_lengths_witness:
  "2 < length rows_gap \<and>
   (\<exists>s. run_loop grid_km rows_gap args_speed 2 = Inr s \<and>
           length (sum_lat s) = length (sum_t s) \<and>
           length (sum_lon s) = length (sum_t s) \<and>
           0 < length (sum_t s) \<and>
           length (speeds_kmh s) + (if gap_anchored grid_km rows_gap args_speed 2 then 0 else 1)
             = length (sum_t s) \<and>
           (gap_anchored grid_km rows_gap args_speed 2 \<longrightarrow> (\<exists>i<2. gap_at rows_gap args_speed i)))"
proof -
  have h: "2 < length rows_gap" by (simp add: rows_gap_def)
  from accumulator_lengths[OF h, of grid_km args_speed] h show ?thesis by (intro conjI)
qed

section \<open>Failure behaviour\<close>

text \<open>
  Claim C6, as stated: for every input point sequence, the empty one included, the detector
  raises no error. It fails on the empty sequence: line 117 reads row \<open>0\<close> before anything
  else and raises \<open>IndexError\<close>.
\<close>

theorem stops_array_empty_raises:
  "stops_array grid_km ([] :: string row list) args_default = Inl IndexError"
  by (simp add: stops_array_def run_loop_def py_index_def)

text \<open>
  Claim C6, amended: for every non-empty input point sequence, whatever the distance function
  and the arguments, \<open>_stops_array\<close> returns its pair of lists and raises nothing; and the
  speed sample for an elapsed time of exactly zero is \<open>0\<close>.
\<close>

theorem stops_array_returns:
  assumes "rows \<noteq> []"
  shows "(\<exists>sl lts. stops_array d rows a = Inr (sl, lts)) \<and> speed_sample Dr 0 = 0"
proof -
  from stops_array_Inr[OF assms] have "\<exists>sl lts. stops_array d rows a = Inr (sl, lts)"
    by blast
  then show ?thesis by (simp add: speed_sample_def py_div_def)
qed

theorem stops_array_returns_witness:
  "rows_stay \<noteq> [] \<and>
   (\<exists>sl lts. stops_array grid_km rows_stay args_default = Inr (sl, lts)) \<and>
   speed_sample 5 0 = 0"
proof -
  have h: "rows_stay \<noteq> []" by (simp add: rows_stay_def)
  from stops_array_returns[OF h, of grid_km args_default 5] h show ?thesis by blast
qed

section \<open>Departure estimates\<close>

text \<open>
  Claim C7: with \<open>min_speed_kmh\<close> unset and \<open>leaving_time\<close> set, the list of leaving times is
  as long as the list of stops before every iteration, and an iteration either leaves both
  lists as they are or appends one stop record and, with it, the timestamp of the exit point,
  row \<open>n + 1\<close>: the estimates are in the order of their records, one for each.
\<close>

theorem leaving_time_is_exit_time:
  assumes "min_speed_kmh a = None" "leaving_time a" "Suc n < length rows"
  shows "\<exists>s s'. run_loop d rows a n = Inr s \<and> run_loop d rows a (Suc n) = Inr s' \<and>
     length (leaving_times s) = length (stops_l s) \<and>
     ((stops_l s' = stops_l s \<and> leaving_times s' = leaving_times s) \<or>
      (confirmed_exit d rows a n \<and> (\<exists>r. stops_l s' = stops_l s @ [r]) \<and>
       leaving_times s' = leaving_times s @ [dtime (rows ! Suc n)]))"
proof -
  from run_loop_step[OF assms(3), of d a] obtain s s' where
    s: "run_loop d rows a n = Inr s" "run_loop d rows a (Suc n) = Inr s'"
    "outcome d rows a n s s'" by blast
  from assms(3) have "n < length rows" by simp
  from run_loop_lists[OF this, of d a] s(1) assms(2)
  have len: "length (leaving_times s) = length (stops_l s)" by simp
  have "(stops_l s' = stops_l s \<and> leaving_times s' = leaving_times s) \<or>
      (confirmed_exit d rows a n \<and> (\<exists>r. stops_l s' = stops_l s @ [r]) \<and>
       leaving_times s' = leaving_times s @ [dtime (rows ! Suc n)])"
  proof (cases "confirmed_exit d rows a n")
    case False
    with s(3) show ?thesis by (simp add: outcome_unconfirmed)
  next
    case True
    from outcome_confirmedE[OF s(3) True] assms(1) obtain est k where
      "stops_l s' = stops_l s @ (if 0 < k then [stop_row k (other (rows ! n)) s] else [])"
      "leaving_times s' = leaving_times s @ (if 0 < k \<and> leaving_time a then [est] else [])"
      "est = dtime (rows ! Suc n)"
      by metis
    with True assms(2) show ?thesis by (cases "0 < k") simp_all
  qed
  with s(1,2) len show ?thesis
    by (intro exI[of _ s] exI[of _ s'] conjI)
qed

theorem leaving_time_is_exit_time_witness:
  "min_speed_kmh args_default = None \<and> leaving_time args_default \<and> Suc 3 < length rows_stay \<and>
   (\<exists>s s'. run_loop grid_km rows_stay args_default 3 = Inr s \<and>
     run_loop grid_km rows_stay args_default (Suc 3) = Inr s' \<and>
     length (leaving_times s) = length (stops_l s) \<and>
     ((stops_l s' = stops_l s \<and> leaving_times s' = leaving_times s) \<or>
      (confirmed_exit grid_km rows_stay args_default 3 \<and> (\<exists>r. stops_l s' = stops_l s @ [r]) \<and>
       leaving_times s' = leaving_times s @ [dtime (rows_stay ! Suc 3)])))"
proof -
  have h: "min_speed_kmh args_default = None" "leaving_time args_default"
    "Suc 3 < length rows_stay"
    by (simp_all add: rows_stay_def args_default_def)
  from leaving_time_is_exit_time[OF h, of grid_km] h show ?thesis by (intro conjI)
qed

text \<open>
  Claim C8: with \<open>min_speed_kmh\<close> and \<open>leaving_time\<close> set and the timestamps of the input in
  non-decreasing order, every departure estimate that is appended lies between the arrival
  time of its stop record, the anchor's timestamp, and the timestamp of the exit point.
\<close>

theorem leaving_time_bounds:
  assumes "min_speed_kmh a = Some m" "leaving_time a" "sorted (map dtime rows)"
    "Suc n < length rows"
  shows "\<exists>s s'. run_loop d rows a n = Inr s \<and> run_loop d rows a (Suc n) = Inr s' \<and>
     length (leaving_times s) = length (stops_l s) \<and>
     ((stops_l s' = stops_l s \<and> leaving_times s' = leaving_times s) \<or>
      (\<exists>r e. stops_l s' = stops_l s @ [r] \<and> leaving_times s' = leaving_times s @ [e] \<and>
         dtime r = dtime (rows ! anchor_at d rows a n) \<and>
         dtime r \<le> e \<and> e \<le> dtime (rows ! Suc n)))"
proof -
  let ?k = "anchor_at d rows a n"
  from run_loop_step[OF assms(4), of d a] obtain s s' where
    s: "run_loop d rows a n = Inr s" "run_loop d rows a (Suc n) = Inr s'"
    "tracks d rows a n s" "outcome d rows a n s s'" by blast
  from assms(4) have n: "n < length rows" by simp
  from run_loop_lists[OF n, of d a] s(1) assms(2)
  have len: "length (leaving_times s) = length (stops_l s)" by simp
  have k: "?k \<le> n" by (rule anchor_at_le)
  have t0: "t_0 s = dtime (rows ! ?k)" and st: "sum_t s = map dtime (visited d rows a n)"
    using s(3) by (simp_all add: tracks_def)
  have lo: "dtime (rows ! ?k) \<le> dtime (rows ! Suc n)"
    using sorted_dtime_mono[OF assms(3), of ?k "Suc n"] k assms(4) by simp
  have mem: "dtime (rows ! ?k) \<le> e \<and> e \<le> dtime (rows ! Suc n)" if "e \<in> set (sum_t s)" for e
  proof -
    from that st obtain x where "x \<in> set (visited d rows a n)" "e = dtime x" by auto
    with visited_nth[OF n] obtain j where j: "?k \<le> j" "j \<le> n" "e = dtime (rows ! j)" by blast
    from sorted_dtime_mono[OF assms(3) j(1)] j(2) n have "dtime (rows ! ?k) \<le> dtime (rows ! j)"
      by simp
    moreover from sorted_dtime_mono[OF assms(3), of j "Suc n"] j(2) assms(4)
    have "dtime (rows ! j) \<le> dtime (rows ! Suc n)" by simp
    ultimately show ?thesis using j(3) by simp
  qed
  have "(stops_l s' = stops_l s \<and> leaving_times s' = leaving_times s) \<or>
      (\<exists>r e. stops_l s' = stops_l s @ [r] \<and> leaving_times s' = leaving_times s @ [e] \<and>
         dtime r = dtime (rows ! ?k) \<and> dtime r \<le> e \<and> e \<le> dtime (rows ! Suc n))"
  proof (cases "confirmed_exit d rows a n")
    case False
    with s(4) show ?thesis by (simp add: outcome_unconfirmed)
  next
    case True
    from outcome_confirmedE[OF s(4) True] obtain est j where j:
      "stops_l s' = stops_l s @ (if 0 < j then [stop_row j (other (rows ! n)) s] else [])"
      "leaving_times s' = leaving_times s @ (if 0 < j \<and> leaving_time a then [est] else [])"
      "est = dtime (rows ! Suc n) \<or> est \<in> set (sum_t s)"
      by metis
    from j(3) mem lo have b: "dtime (rows ! ?k) \<le> est \<and> est \<le> dtime (rows ! Suc n)" by auto
    show ?thesis
    proof (cases "0 < j")
      case False
      with j show ?thesis by simp
    next
      case True
      with j assms(2) b t0 show ?thesis
        by (intro disjI2 exI[of _ "stop_row j (other (rows ! n)) s"] exI[of _ est])
           (simp add: stop_row_def)
    qed
  qed
  with s(1,2) len show ?thesis
    by (intro exI[of _ s] exI[of _ s'] conjI)
qed

theorem leaving_time_bounds_witness:
  "min_speed_kmh args_speed = Some 1 \<and> leaving_time args_speed \<and>
   sorted (map dtime rows_fast) \<and> Suc 2 < length rows_fast \<and>
   (\<exists>s s'. run_loop grid_km rows_fast args_speed 2 = Inr s \<and>
     run_loop grid_km rows_fast args_speed (Suc 2) = Inr s' \<and>
     length (leaving_times s) = length (stops_l s) \<and>
     ((stops_l s' = stops_l s \<and> leaving_times s' = leaving_times s) \<or>
      (\<exists>r e. stops_l s' = stops_l s @ [r] \<and> leaving_times s' = leaving_times s @ [e] \<and>
         dtime r = dtime (rows_fast ! anchor_at grid_km rows_fast args_speed 2) \<and>
         dtime r \<le> e \<and> e \<le> dtime (rows_fast ! Suc 2))))"
proof -
  have h: "min_speed_kmh args_speed = Some 1" "leaving_time args_speed"
    "sorted (map dtime rows_fast)" "Suc 2 < length rows_fast"
    by (simp_all add: rows_fast_def args_speed_def)
  from leaving_time_bounds[OF h, of grid_km] h show ?thesis by (intro conjI)
qed

section \<open>The stop radius and the recorded arguments\<close>



section \<open>The flag \<open>leaving_time\<close>\<close>

text \<open>
  Claim C10: the stop records of \<open>_stops_array\<close> and the rows of \<open>_stops_trajectory\<close> are the
  same with the flag set and unset, and so is the exception when there is one; the flag
  decides only whether the column \<open>leaving_datetime\<close> is attached.
\<close>

theorem leaving_time_flag:
  "map_sum id fst (stops_array d rows (a\<lparr>leaving_time := True\<rparr>)) =
     map_sum id fst (stops_array d rows (a\<lparr>leaving_time := False\<rparr>)) \<and>
   map_sum id tdf_rows (stops_trajectory d t (a\<lparr>leaving_time := True\<rparr>)) =
     map_sum id tdf_rows (stops_trajectory d t (a\<lparr>leaving_time := False\<rparr>)) \<and>
   map_sum id (\<lambda>out. leaving_datetime out = None) (stops_trajectory d t a) =
     map_sum id (\<lambda>out. \<not> leaving_time a) (stops_trajectory d t a)"
proof -
  have "map_sum id tdf_rows (stops_trajectory d t (a\<lparr>leaving_time := True\<rparr>)) =
     map_sum id tdf_rows (stops_trajectory d t (a\<lparr>leaving_time := False\<rparr>))"
    by (simp only: stops_trajectory_flag)
  with stops_array_flag[where d = d and rows = rows and a = a and b = True]
    stops_trajectory_column[of d t a] show ?thesis by (intro conjI)
qed

theorem leaving_time_flag_witness:
  "map_sum id fst (stops_array grid_km rows_stay (args_default\<lparr>leaving_time := True\<rparr>)) =
     Inr [\<lparr>lat = 0, lng = 0, dtime = 0, other = [''d'']\<rparr>] \<and>
   map_sum id fst (stops_array grid_km rows_stay (args_default\<lparr>leaving_time := False\<rparr>)) =
     Inr [\<lparr>lat = 0, lng = 0, dtime = 0, other = [''d'']\<rparr>] \<and>
   stops_array grid_km rows_stay (args_default\<lparr>leaving_time := False\<rparr>) =
     Inr ([\<lparr>lat = 0, lng = 0, dtime = 0, other = [''d'']\<rparr>], [])"
proof -
  have off: "stops_array grid_km rows_stay (args_default\<lparr>leaving_time := False\<rparr>) =
     Inr ([\<lparr>lat = 0, lng = 0, dtime = 0, other = [''d'']\<rparr>], [])"
    by (simp add: run_defs input_defs)
  with leaving_time_flag[where d = grid_km and rows = rows_stay and a = args_default
      and t = tdf_compressed, THEN conjunct1]
  have "map_sum id fst (stops_array grid_km rows_stay (args_default\<lparr>leaving_time := True\<rparr>)) =
     Inr [\<lparr>lat = 0, lng = 0, dtime = 0, other = [''d'']\<rparr>]" by simp
  with off show ?thesis by simp
qed

end
